theory Spec2Isabelle
  imports Main "HOL-Library.Char_ord" "HOL-Library.List_Lexorder" "HOL-Library.Multiset"
begin

section \<open>Strings\<close>

text \<open>
  A Go string is a sequence of bytes; \<^typ>\<open>string\<close> is a list of 8-bit characters.
  \<^verbatim>\<open>sort.Strings\<close> and the operator \<^verbatim>\<open><\<close> compare strings byte by byte, a proper
  prefix being smaller: this is the lexicographic order of lists over the order of
  characters by their codes, which the two library theories give to \<^typ>\<open>string\<close>.
  The functions below are those of Go's package \<^verbatim>\<open>strings\<close> that the program calls.
\<close>

fun HasPrefix :: "string \<Rightarrow> string \<Rightarrow> bool" where
  "HasPrefix s [] = True"
| "HasPrefix [] (p # ps) = False"
| "HasPrefix (c # cs) (p # ps) = (c = p \<and> HasPrefix cs ps)"

definition HasSuffix :: "string \<Rightarrow> string \<Rightarrow> bool" where
  "HasSuffix s suffix = HasPrefix (rev s) (rev suffix)"

fun Contains :: "string \<Rightarrow> string \<Rightarrow> bool" where
  "Contains [] substr = (substr = [])"
| "Contains (c # cs) substr = (HasPrefix (c # cs) substr \<or> Contains cs substr)"

definition TrimPrefix :: "string \<Rightarrow> string \<Rightarrow> string" where
  "TrimPrefix s prefix = (if HasPrefix s prefix then drop (length prefix) s else s)"

text \<open>
  \<^verbatim>\<open>strings.Split(s, sep)\<close> for a separator of one byte: one more part than there are
  separators in \<open>s\<close>, the empty string giving one empty part.
\<close>

fun Split :: "string \<Rightarrow> char \<Rightarrow> string list" where
  "Split [] sep = [[]]"
| "Split (c # cs) sep =
     (if c = sep then [] # Split cs sep
      else (case Split cs sep of
              [] \<Rightarrow> [[c]]
            | part # parts \<Rightarrow> (c # part) # parts))"

text \<open>
  White space: the six ASCII bytes that \<^verbatim>\<open>unicode.IsSpace\<close> accepts. The white space
  of Unicode beyond ASCII (U+0085, U+00A0 and others, several bytes each in UTF-8) is
  not recognised here; the scanner's inputs are taken to have none.
\<close>

definition isSpace :: "char \<Rightarrow> bool" where
  "isSpace c = (c \<in> set [CHR 0x09, CHR 0x0A, CHR 0x0B, CHR 0x0C, CHR 0x0D, CHR 0x20])"

definition TrimSpace :: "string \<Rightarrow> string" where
  "TrimSpace s = rev (dropWhile isSpace (rev (dropWhile isSpace s)))"

definition Trim :: "string \<Rightarrow> string \<Rightarrow> string" where
  "Trim s cutset =
     rev (dropWhile (\<lambda>c. c \<in> set cutset) (rev (dropWhile (\<lambda>c. c \<in> set cutset) s)))"

text \<open>\<^verbatim>\<open>strings.Fields\<close>: the maximal runs of bytes that are not white space.\<close>

fun fieldsFrom :: "string \<Rightarrow> string \<Rightarrow> string list" where
  "fieldsFrom cur [] = (if cur = [] then [] else [cur])"
| "fieldsFrom cur (c # cs) =
     (if isSpace c then (if cur = [] then fieldsFrom [] cs else cur # fieldsFrom [] cs)
      else fieldsFrom (cur @ [c]) cs)"

definition Fields :: "string \<Rightarrow> string list" where
  "Fields s = fieldsFrom [] s"

section \<open>Data model (parser.go)\<close>

text \<open>
  A \<^verbatim>\<open>cty.Value\<close> as far as the program looks at it: a known string
  (\<^verbatim>\<open>val.Type() == cty.String\<close>, read with \<^verbatim>\<open>AsString\<close>) or anything else. A value of
  type string that is null or unknown, on which \<^verbatim>\<open>AsString\<close> panics, is not modelled.
\<close>

datatype cty = CtyString string | CtyOther

record Resource =
  Type :: string
  Name :: string
  Provider :: string
  Attributes :: "string \<rightharpoonup> cty"
  ResourceType :: string

record BackendConfig =
  BackendType :: string
  Config :: "string \<rightharpoonup> string"

record ParseResult =
  Resources :: "Resource list"
  Backend :: "BackendConfig option"
  DataSources :: "Resource list"

record ResourcePermissions =
  Actions :: "string list"
  ResourceTypes :: "string list"

type_synonym PermissionMap = "string \<rightharpoonup> ResourcePermissions"

text \<open>
  Errors are values. \<open>IOError\<close> is an error of the operating system (a failed
  \<^verbatim>\<open>os.ReadFile\<close>, an error \<^verbatim>\<open>filepath.Walk\<close> hands to its callback) with its message;
  \<open>Wrapped prefix err\<close> is \<^verbatim>\<open>fmt.Errorf("<prefix>: %w", err)\<close>.
\<close>

datatype error =
    IOError string
  | DecodeError string
  | Wrapped string error
  | UnsupportedFormat string

text \<open>
  A block of the syntax tree that \<^verbatim>\<open>hclsyntax.ParseConfig\<close> returns: its type, its
  labels, and the attributes (each with the value its expression evaluates to) and
  nested blocks of its body.
\<close>

datatype hclBlock =
  Block (blockType: string) (Labels: "string list")
        (bodyAttributes: "(string \<times> cty) list") (bodyBlocks: "hclBlock list")

text \<open>
  What the program reads from outside: the file system, the HCL parser (\<open>None\<close> when
  the diagnostics have errors) and the JSON decoder of the permissions database (a JSON
  \<^verbatim>\<open>null\<close> decodes to the nil map, \<open>None\<close>).
\<close>

record env =
  ReadFile :: "string \<Rightarrow> error + string"
  ParseConfig :: "string \<Rightarrow> hclBlock list option"
  Unmarshal :: "string \<Rightarrow> error + PermissionMap option"

text \<open>
  One call of the callback of \<^verbatim>\<open>filepath.Walk\<close>: the path, \<^verbatim>\<open>info.Name()\<close> and the
  error the walk hands over. The traversal is the list of these calls in the order the
  walk makes them.
\<close>

record walkEntry =
  entryPath :: string
  infoName :: string
  walkErr :: "error option"

section \<open>The permissions database (parser.go)\<close>

text \<open>
  The global \<^verbatim>\<open>permissionsDB\<close> is passed explicitly: \<open>None\<close> is the nil map. The file
  name is the constant of the source.
\<close>

definition loadPermissionsDB :: "env \<Rightarrow> error + PermissionMap option" where
  "loadPermissionsDB e =
     (case ReadFile e ''permissions.json'' of
        Inl err \<Rightarrow> Inl (Wrapped ''error reading permissions.json'' err)
      | Inr data \<Rightarrow>
          (case Unmarshal e data of
             Inl err \<Rightarrow> Inl (Wrapped ''error parsing permissions.json'' err)
           | Inr db \<Rightarrow> Inr db))"

definition getRequiredPermissions :: "PermissionMap option \<Rightarrow> string \<Rightarrow> string list" where
  "getRequiredPermissions permissionsDB resourceType =
     (case permissionsDB of
        None \<Rightarrow> []
      | Some db \<Rightarrow> (case db resourceType of Some perms \<Rightarrow> Actions perms | None \<Rightarrow> []))"

section \<open>Extraction from the syntax tree (parser.go)\<close>

definition extractResourceFromBlock :: "hclBlock \<Rightarrow> Resource option" where
  "extractResourceFromBlock block =
     (case Labels block of
        fullType # name # _ \<Rightarrow>
          Some \<lparr>Type = fullType, Name = name,
                Provider =
                  (if HasPrefix fullType ''aws_'' then ''aws''
                   else if Contains fullType ''_'' then takeWhile (\<lambda>c. c \<noteq> CHR ''_'') fullType
                   else ''aws''),
                Attributes = map_of (bodyAttributes block),
                ResourceType = fullType\<rparr>
      | _ \<Rightarrow> None)"

definition extractDataSourceFromBlock :: "hclBlock \<Rightarrow> Resource option" where
  "extractDataSourceFromBlock block =
     (case Labels block of
        fullType # name # _ \<Rightarrow>
          Some \<lparr>Type = fullType, Name = name,
                Provider = (if HasPrefix fullType ''aws_'' then ''aws'' else ''aws''),
                Attributes = Map.empty,
                ResourceType = fullType\<rparr>
      | _ \<Rightarrow> None)"

fun stringValued :: "(string \<times> cty) list \<Rightarrow> (string \<times> string) list" where
  "stringValued [] = []"
| "stringValued ((name, CtyString s) # rest) = (name, s) # stringValued rest"
| "stringValued ((name, CtyOther) # rest) = stringValued rest"

text \<open>The loop over the nested blocks of a \<^verbatim>\<open>terraform\<close> block returns at the first match.\<close>

fun backendOfNested :: "hclBlock list \<Rightarrow> BackendConfig option" where
  "backendOfNested [] = None"
| "backendOfNested (nestedBlock # rest) =
     (if blockType nestedBlock = ''backend'' \<and> length (Labels nestedBlock) > 0
      then Some \<lparr>BackendType = hd (Labels nestedBlock),
                 Config = map_of (stringValued (bodyAttributes nestedBlock))\<rparr>
      else backendOfNested rest)"

definition extractBackendFromBlock :: "hclBlock \<Rightarrow> BackendConfig option" where
  "extractBackendFromBlock block = backendOfNested (bodyBlocks block)"

definition extractBackendFromState :: "env \<Rightarrow> string \<Rightarrow> error + BackendConfig option" where
  "extractBackendFromState e filePath =
     (case ReadFile e filePath of
        Inl err \<Rightarrow> Inl err
      | Inr contentStr \<Rightarrow>
          (if Contains contentStr ''s3'' \<or> Contains contentStr ''backend''
           then Inr (Some \<lparr>BackendType = ''s3'', Config = Map.empty\<rparr>)
           else Inr None))"

definition emptyResult :: ParseResult where
  "emptyResult = \<lparr>Resources = [], Backend = None, DataSources = []\<rparr>"

section \<open>The fallback line scanner (parser.go, extractWithSimpleParsing)\<close>

text \<open>The variables of the loop: the result so far and the two tracking strings.\<close>

record scanState =
  scanResult :: ParseResult
  currentBlock :: string
  currentName :: string

definition scanDeclaration :: "bool \<Rightarrow> string \<Rightarrow> scanState \<Rightarrow> scanState" where
  \<open>scanDeclaration isData trimmed st0 =
     (let st = st0\<lparr>currentBlock := (if isData then ''data'' else ''resource'')\<rparr>;
          parts = Fields trimmed
      in if length parts \<ge> 2 then
           (let resourceType = Trim (parts ! 1) ''"'';
                st1 = (if length parts \<ge> 3 then st\<lparr>currentName := Trim (parts ! 2) ''"''\<rparr> else st);
                provider = (if HasPrefix resourceType ''aws_'' then ''aws'' else ''aws'');
                r = \<lparr>Type = resourceType, Name = currentName st1, Provider = provider,
                     Attributes = Map.empty, ResourceType = resourceType\<rparr>;
                res = scanResult st1
            in st1\<lparr>scanResult :=
                   (if isData then res\<lparr>DataSources := DataSources res @ [r]\<rparr>
                    else res\<lparr>Resources := Resources res @ [r]\<rparr>)\<rparr>)
         else st)\<close>

definition scanLine :: "scanState \<Rightarrow> string \<Rightarrow> scanState" where
  \<open>scanLine st0 line =
     (let trimmed = TrimSpace line in
      if HasPrefix trimmed ''#'' \<or> HasPrefix trimmed ''//'' \<or> trimmed = '''' then st0
      else
        (let st1 = (if HasPrefix trimmed ''resource "'' then scanDeclaration False trimmed st0
                    else if HasPrefix trimmed ''data "'' then scanDeclaration True trimmed st0
                    else st0);
             st2 = (if Contains trimmed ''backend "'' \<and> currentBlock st1 = ''terraform''
                    then (let parts = Fields trimmed in
                          if length parts \<ge> 2
                          then st1\<lparr>scanResult := (scanResult st1)
                                   \<lparr>Backend := Some \<lparr>BackendType = Trim (parts ! 1) ''"'',
                                                      Config = Map.empty\<rparr>\<rparr>\<rparr>
                          else st1)
                    else st1);
             st3 = (if HasPrefix trimmed ''terraform'' then st2\<lparr>currentBlock := ''terraform''\<rparr>
                    else st2);
             st4 = (if trimmed = ''}'' then st3\<lparr>currentBlock := '''', currentName := ''''\<rparr>
                    else st3)
         in st4))\<close>

definition extractWithSimpleParsing :: "string \<Rightarrow> string \<Rightarrow> error + ParseResult" where
  "extractWithSimpleParsing content filePath =
     Inr (scanResult
            (foldl scanLine \<lparr>scanResult = emptyResult, currentBlock = '''', currentName = ''''\<rparr>
               (Split content CHR 0x0A)))"

section \<open>Parsing one file and walking the directory (parser.go)\<close>

definition addBlock :: "ParseResult \<Rightarrow> hclBlock \<Rightarrow> ParseResult" where
  "addBlock result block =
     (if blockType block = ''resource'' then
        (case extractResourceFromBlock block of
           Some resource \<Rightarrow> result\<lparr>Resources := Resources result @ [resource]\<rparr>
         | None \<Rightarrow> result)
      else if blockType block = ''data'' then
        (case extractDataSourceFromBlock block of
           Some dataSource \<Rightarrow> result\<lparr>DataSources := DataSources result @ [dataSource]\<rparr>
         | None \<Rightarrow> result)
      else if blockType block = ''terraform'' then
        (case extractBackendFromBlock block of
           Some backend \<Rightarrow> result\<lparr>Backend := Some backend\<rparr>
         | None \<Rightarrow> result)
      else result)"

definition parseTerraformFile :: "env \<Rightarrow> string \<Rightarrow> error + ParseResult" where
  "parseTerraformFile e filePath =
     (case ReadFile e filePath of
        Inl err \<Rightarrow> Inl err
      | Inr content \<Rightarrow>
          (case ParseConfig e content of
             None \<Rightarrow> extractWithSimpleParsing content filePath
           | Some blocks \<Rightarrow> Inr (foldl addBlock emptyResult blocks)))"

text \<open>
  The two halves of the callback that \<^verbatim>\<open>parseTerraformFiles\<close> gives to the walk: the
  configuration file (an error ends the callback) and the state file (an error of
  \<^verbatim>\<open>extractBackendFromState\<close> is dropped by the test \<^verbatim>\<open>err == nil && backendInfo != nil\<close>).
\<close>

definition visitConfig :: "env \<Rightarrow> walkEntry \<Rightarrow> ParseResult \<Rightarrow> error + ParseResult" where
  "visitConfig e entry result =
     (if HasSuffix (infoName entry) ''.tf'' then
        (case parseTerraformFile e (entryPath entry) of
           Inl err \<Rightarrow> Inl (Wrapped (''error parsing '' @ entryPath entry) err)
         | Inr fileResult \<Rightarrow>
             Inr (result\<lparr>Resources := Resources result @ Resources fileResult,
                        DataSources := DataSources result @ DataSources fileResult,
                        Backend := (if Backend fileResult \<noteq> None \<and> Backend result = None
                                    then Backend fileResult else Backend result)\<rparr>))
      else Inr result)"

definition visitState :: "env \<Rightarrow> walkEntry \<Rightarrow> ParseResult \<Rightarrow> ParseResult" where
  "visitState e entry result =
     (if infoName entry = ''terraform.tfstate'' \<or> HasSuffix (infoName entry) ''.tfstate'' then
        (case extractBackendFromState e (entryPath entry) of
           Inr (Some backendInfo) \<Rightarrow> result\<lparr>Backend := Some backendInfo\<rparr>
         | _ \<Rightarrow> result)
      else result)"

definition walkFn :: "env \<Rightarrow> walkEntry \<Rightarrow> ParseResult \<Rightarrow> ParseResult \<times> error option" where
  "walkFn e entry result =
     (case walkErr entry of
        Some err \<Rightarrow> (result, Some err)
      | None \<Rightarrow>
          (case visitConfig e entry result of
             Inl err \<Rightarrow> (result, Some err)
           | Inr result' \<Rightarrow> (visitState e entry result', None)))"

text \<open>\<^verbatim>\<open>filepath.Walk\<close> stops at the first error its callback returns and returns it.\<close>

fun Walk :: "env \<Rightarrow> walkEntry list \<Rightarrow> ParseResult \<Rightarrow> ParseResult \<times> error option" where
  "Walk e [] result = (result, None)"
| "Walk e (entry # rest) result =
     (case walkFn e entry result of
        (result', Some err) \<Rightarrow> (result', Some err)
      | (result', None) \<Rightarrow> Walk e rest result')"

text \<open>
  \<^verbatim>\<open>parseTerraformFiles\<close>, the traversal of \<^verbatim>\<open>dirPath\<close> given as the list of the walk's
  calls. It returns the result pointer (nil, \<open>None\<close>, when the database fails to load),
  the error, and the global database as the call leaves it.
\<close>

definition parseTerraformFiles ::
  "env \<Rightarrow> PermissionMap option \<Rightarrow> walkEntry list
     \<Rightarrow> ParseResult option \<times> error option \<times> PermissionMap option" where
  "parseTerraformFiles e permissionsDB entries =
     (case (case permissionsDB of None \<Rightarrow> loadPermissionsDB e | Some _ \<Rightarrow> Inr permissionsDB) of
        Inl err \<Rightarrow> (None, Some err, permissionsDB)
      | Inr db \<Rightarrow>
          (case Walk e entries emptyResult of
             (result, err) \<Rightarrow> (Some result, err, db)))"

section \<open>The policy (generateIAMPolicy and its helpers)\<close>

record IAMStatement =
  Effect :: string
  Action :: "string list"
  Resource :: string

record IAMPolicy =
  Version :: string
  Statement :: "IAMStatement list"

text \<open>
  The fields \<^verbatim>\<open>Action\<close> and \<^verbatim>\<open>Resource\<close> are of type \<^verbatim>\<open>interface{}\<close> in the source;
  \<^verbatim>\<open>generateIAMPolicy\<close> stores a \<^verbatim>\<open>[]string\<close> in the first and a \<^verbatim>\<open>string\<close> in the second,
  and the record has these types.

  The set \<^verbatim>\<open>actions\<close> (a \<^verbatim>\<open>map[string]bool\<close>) is the list of its keys without repetition:
  \<^verbatim>\<open>actions[action] = true\<close> adds a key that is not there yet.
\<close>

definition addAction :: "string list \<Rightarrow> string \<Rightarrow> string list" where
  "addAction actions action = (if action \<in> set actions then actions else actions @ [action])"

definition isReadOnly :: "string \<Rightarrow> bool" where
  "isReadOnly action =
     (Contains action ''Describe'' \<or> Contains action ''Get'' \<or> Contains action ''List'')"

text \<open>The actions one pass of each of the two collecting loops marks.\<close>

definition resourceActions :: "PermissionMap option \<Rightarrow> Resource \<Rightarrow> string list" where
  "resourceActions permissionsDB resource =
     (if Provider resource = ''aws'' \<and> Type resource \<noteq> ''''
      then getRequiredPermissions permissionsDB (Type resource) else [])"

definition dataSourceActions :: "PermissionMap option \<Rightarrow> Resource \<Rightarrow> string list" where
  "dataSourceActions permissionsDB dataSource =
     (if Provider dataSource = ''aws'' \<and> Type dataSource \<noteq> ''''
      then filter isReadOnly
             (getRequiredPermissions permissionsDB (TrimPrefix (Type dataSource) ''data.''))
      else [])"

definition backendActions :: "string list" where
  "backendActions =
     [''s3:GetObject'', ''s3:PutObject'', ''s3:ListBucket'', ''s3:DeleteObject'',
      ''dynamodb:GetItem'', ''dynamodb:PutItem'', ''dynamodb:DeleteItem'',
      ''dynamodb:DescribeTable'']"

definition collectActions :: "PermissionMap option \<Rightarrow> ParseResult \<Rightarrow> bool \<Rightarrow> string list" where
  "collectActions permissionsDB result includeStateBackend =
     (let actions1 = foldl (\<lambda>actions resource.
                        foldl addAction actions (resourceActions permissionsDB resource))
                      [] (Resources result);
          actions2 = foldl (\<lambda>actions dataSource.
                        foldl addAction actions (dataSourceActions permissionsDB dataSource))
                      actions1 (DataSources result)
      in if includeStateBackend \<or> Backend result \<noteq> None
         then foldl addAction actions2 backendActions else actions2)"

text \<open>
  \<^verbatim>\<open>actionList\<close>: the keys of the set, appended in the order the \<^verbatim>\<open>range\<close> over the map
  yields them and then sorted by \<^verbatim>\<open>sort.Strings\<close>. The keys are distinct, so the sorted
  slice is the same for every order of the range (lemma \<open>sort_range_order\<close> below).
\<close>

definition sortedActionList :: "PermissionMap option \<Rightarrow> ParseResult \<Rightarrow> bool \<Rightarrow> string list" where
  "sortedActionList permissionsDB result includeStateBackend =
     sort (collectActions permissionsDB result includeStateBackend)"

subsection \<open>Iterating over a Go map\<close>

text \<open>
  Go leaves the order of a \<^verbatim>\<open>range\<close> over a map unspecified, and the runtime varies it
  from one loop to the next. A loop over a map therefore takes the order as a parameter
  \<open>keys\<close>: the keys of the map, each once, in the order this run of the loop yields them.
  The language allows every such list; with two keys the runtime produces both orders.
\<close>

definition rangeOrder :: "string list \<Rightarrow> (string \<rightharpoonup> 'v) \<Rightarrow> bool" where
  "rangeOrder keys m = (distinct keys \<and> set keys = dom m)"

text \<open>\<^verbatim>\<open>m[k]\<close> for a map of slices: the nil slice when the key is absent.\<close>

definition mapIndex :: "(string \<rightharpoonup> 'v list) \<Rightarrow> string \<Rightarrow> 'v list" where
  "mapIndex m k = (case m k of None \<Rightarrow> [] | Some vs \<Rightarrow> vs)"

subsection \<open>groupActionsByService\<close>

text \<open>
  The first loop: \<open>None\<close> is the early \<^verbatim>\<open>return actions\<close> at an identifier that
  \<^verbatim>\<open>strings.Split(action, ":")\<close> does not cut in two parts.
\<close>

fun collectPrefixes ::
  "string list \<Rightarrow> (string \<rightharpoonup> string list) \<Rightarrow> (string \<rightharpoonup> string list) option" where
  "collectPrefixes [] servicePrefixes = Some servicePrefixes"
| "collectPrefixes (action # rest) servicePrefixes =
     (case Split action CHR '':'' of
        [service, actionName] \<Rightarrow>
          collectPrefixes rest
            (servicePrefixes(service \<mapsto> mapIndex servicePrefixes service @ [actionName]))
      | _ \<Rightarrow> None)"

definition emitService :: "(string \<rightharpoonup> string list) \<Rightarrow> string \<Rightarrow> string list" where
  "emitService servicePrefixes service =
     (case servicePrefixes service of
        None \<Rightarrow> []
      | Some actionNames \<Rightarrow>
          (if length actionNames > 5 then [service @ '':*'']
           else map (\<lambda>actionName. service @ '':'' @ actionName) actionNames))"

definition groupActionsByService :: "string list \<Rightarrow> string list \<Rightarrow> string list" where
  "groupActionsByService keys actions =
     (case collectPrefixes actions Map.empty of
        None \<Rightarrow> actions
      | Some servicePrefixes \<Rightarrow> concat (map (emitService servicePrefixes) keys))"

text \<open>
  The orders in which the loop over \<^verbatim>\<open>servicePrefixes\<close> can run for a given action list
  (any, when the early return leaves the loop unreached).
\<close>

definition servicePrefixesRange :: "string list \<Rightarrow> string list \<Rightarrow> bool" where
  "servicePrefixesRange keys actions =
     (case collectPrefixes actions Map.empty of
        None \<Rightarrow> True
      | Some servicePrefixes \<Rightarrow> rangeOrder keys servicePrefixes)"

text \<open>
  The two parts of an identifier \<open>service:Verb\<close>: the text before its first \<open>:\<close> and
  the text after it. For an identifier with exactly one \<open>:\<close> they are \<^verbatim>\<open>parts[0]\<close> and
  \<^verbatim>\<open>parts[1]\<close> of the source (lemma \<open>Split_wellformed\<close>).
\<close>

definition serviceOf :: "string \<Rightarrow> string" where
  "serviceOf action = takeWhile (\<lambda>c. c \<noteq> CHR '':'') action"

definition actionNameOf :: "string \<Rightarrow> string" where
  "actionNameOf action = tl (dropWhile (\<lambda>c. c \<noteq> CHR '':'') action)"

text \<open>The names of the actions of one service, in the order of the list.\<close>

definition namesFor :: "string \<Rightarrow> string list \<Rightarrow> string list" where
  "namesFor service actions = map actionNameOf (filter (\<lambda>a. serviceOf a = service) actions)"

subsection \<open>groupActionsByServiceWithActions and the table of ARN patterns\<close>

fun groupWithActions ::
  "string list \<Rightarrow> (string \<rightharpoonup> string list) \<Rightarrow> (string \<rightharpoonup> string list)" where
  "groupWithActions [] grouped = grouped"
| "groupWithActions (action # rest) grouped =
     (case Split action CHR '':'' of
        [service, actionName] \<Rightarrow>
          groupWithActions rest
            (grouped(service \<mapsto> mapIndex grouped service @ [action]))
      | _ \<Rightarrow> groupWithActions rest grouped)"

definition groupActionsByServiceWithActions :: "string list \<Rightarrow> (string \<rightharpoonup> string list)" where
  "groupActionsByServiceWithActions actions = groupWithActions actions Map.empty"

definition arnMap :: "(string \<times> string) list" where
  "arnMap =
    [
     (''ec2'', ''arn:aws:ec2:*:*:*''),
     (''s3'', ''arn:aws:s3:::*''),
     (''iam'', ''arn:aws:iam::*:*''),
     (''rds'', ''arn:aws:rds:*:*:*''),
     (''lambda'', ''arn:aws:lambda:*:*:*''),
     (''apigateway'', ''arn:aws:apigateway:*::*''),
     (''sns'', ''arn:aws:sns:*:*:*''),
     (''sqs'', ''arn:aws:sqs:*:*:*''),
     (''dynamodb'', ''arn:aws:dynamodb:*:*:*''),
     (''logs'', ''arn:aws:logs:*:*:*''),
     (''cloudwatch'', ''arn:aws:cloudwatch:*:*:*''),
     (''autoscaling'', ''arn:aws:autoscaling:*:*:*''),
     (''application-autoscaling'', ''arn:aws:application-autoscaling:*:*:*''),
     (''route53'', ''arn:aws:route53:::*''),
     (''cloudfront'', ''arn:aws:cloudfront:::*''),
     (''elasticloadbalancing'', ''arn:aws:elasticloadbalancing:*:*:*''),
     (''elasticfilesystem'', ''arn:aws:elasticfilesystem:*:*:*''),
     (''secretsmanager'', ''arn:aws:secretsmanager:*:*:*''),
     (''kms'', ''arn:aws:kms:*:*:*''),
     (''ecr'', ''arn:aws:ecr:*:*:repository/*''),
     (''ecs'', ''arn:aws:ecs:*:*:*''),
     (''eks'', ''arn:aws:eks:*:*:cluster/*''),
     (''events'', ''arn:aws:events:*:*:rule/*''),
     (''codepipeline'', ''arn:aws:codepipeline:*:*:*''),
     (''codedeploy'', ''arn:aws:codedeploy:*:*:*''),
     (''codebuild'', ''arn:aws:codebuild:*:*:project/*''),
     (''codecommit'', ''arn:aws:codecommit:*:*:*''),
     (''glue'', ''arn:aws:glue:*:*:*''),
     (''redshift'', ''arn:aws:redshift:*:*:cluster:*''),
     (''elasticache'', ''arn:aws:elasticache:*:*:*''),
     (''es'', ''arn:aws:es:*:*:domain/*''),
     (''kinesis'', ''arn:aws:kinesis:*:*:stream/*''),
     (''firehose'', ''arn:aws:firehose:*:*:deliverystream/*''),
     (''athena'', ''arn:aws:athena:*:*:workgroup/*''),
     (''datasync'', ''arn:aws:datasync:*:*:*''),
     (''backup'', ''arn:aws:backup:*:*:*''),
     (''batch'', ''arn:aws:batch:*:*:*''),
     (''guardduty'', ''arn:aws:guardduty:*:*:detector/*''),
     (''securityhub'', ''arn:aws:securityhub:*:*:hub/default''),
     (''inspector'', ''arn:aws:inspector:*:*:*''),
     (''config'', ''arn:aws:config:*:*:*''),
     (''waf'', ''arn:aws:waf:::*''),
     (''waf-regional'', ''arn:aws:waf-regional:*:*:*''),
     (''wafv2'', ''arn:aws:wafv2:*:*:*''),
     (''shield'', ''arn:aws:shield:::*''),
     (''ssm'', ''arn:aws:ssm:*:*:*''),
     (''transfer'', ''arn:aws:transfer:*:*:server/*''),
     (''mq'', ''arn:aws:mq:*:*:broker/*''),
     (''iot'', ''arn:aws:iot:*:*:*''),
     (''mobiletargeting'', ''arn:aws:mobiletargeting:*:*:apps/*''),
     (''mediaconvert'', ''arn:aws:mediaconvert:*:*:queues/*''),
     (''mediastore'', ''arn:aws:mediastore:*:*:container/*''),
     (''storagegateway'', ''arn:aws:storagegateway:*:*:gateway/*''),
     (''servicediscovery'', ''arn:aws:servicediscovery:*:*:*''),
     (''appmesh'', ''arn:aws:appmesh:*:*:mesh/*''),
     (''states'', ''arn:aws:states:*:*:stateMachine:*''),
     (''network-firewall'', ''arn:aws:network-firewall:*:*:*''),
     (''amplify'', ''arn:aws:amplify:*:*:*''),
     (''appsync'', ''arn:aws:appsync:*:*:apis/*''),
     (''cognito-idp'', ''arn:aws:cognito-idp:*:*:userpool/*''),
     (''cognito-identity'', ''arn:aws:cognito-identity:*:*:identitypool/*''),
     (''fsx'', ''arn:aws:fsx:*:*:file-system/*''),
     (''qldb'', ''arn:aws:qldb:*:*:*''),
     (''timestream'', ''arn:aws:timestream:*:*:*''),
     (''memorydb'', ''arn:aws:memorydb:*:*:cluster/*'')]"

definition getResourceARNForService :: "string \<Rightarrow> string" where
  "getResourceARNForService service =
     (case map_of arnMap service of Some arn \<Rightarrow> arn | None \<Rightarrow> ''*'')"

subsection \<open>Statements\<close>

text \<open>
  \<^verbatim>\<open>sort.Slice\<close> with the comparison of the source. The library sorts a short slice by
  insertion (an element moves left past each neighbour it is less than) and a long one
  by a quicksort; \<open>sortSlice\<close> is the insertion sort. The statements sorted here have
  non-empty action lists whose first actions differ from service to service, so the
  comparison is a strict linear order on them and the sorted slice is the only
  arrangement of the statements in that order (lemma \<open>sortSlice_unique\<close> below).
\<close>

fun moveLeft :: "('a \<Rightarrow> 'a \<Rightarrow> bool) \<Rightarrow> 'a \<Rightarrow> 'a list \<Rightarrow> 'a list" where
  "moveLeft lessFn x [] = [x]"
| "moveLeft lessFn x (y # earlier) =
     (if lessFn x y then y # moveLeft lessFn x earlier else x # y # earlier)"

definition sortSlice :: "('a \<Rightarrow> 'a \<Rightarrow> bool) \<Rightarrow> 'a list \<Rightarrow> 'a list" where
  "sortSlice lessFn xs = rev (foldl (\<lambda>sortedRev x. moveLeft lessFn x sortedRev) [] xs)"

definition firstActionLess :: "IAMStatement \<Rightarrow> IAMStatement \<Rightarrow> bool" where
  "firstActionLess si sj =
     (if length (Action si) > 0 \<and> length (Action sj) > 0
      then hd (Action si) < hd (Action sj) else False)"

definition serviceStatement :: "(string \<rightharpoonup> string list) \<Rightarrow> string \<Rightarrow> IAMStatement list" where
  "serviceStatement groupedByService service =
     (case groupedByService service of
        None \<Rightarrow> []
      | Some serviceActions \<Rightarrow>
          [\<lparr>Effect = ''Allow'', Action = serviceActions,
            Resource = getResourceARNForService service\<rparr>])"

text \<open>
  The statements of the policy. \<open>keys\<close> is the order of the one \<^verbatim>\<open>range\<close> over a map of
  services that the run makes: over \<^verbatim>\<open>servicePrefixes\<close> in \<^verbatim>\<open>groupActionsByService\<close> without
  least privilege, over \<^verbatim>\<open>groupedByService\<close> with it.
\<close>

definition leastPrivilegeStatements :: "string list \<Rightarrow> string list \<Rightarrow> IAMStatement list" where
  "leastPrivilegeStatements keys actionList =
     sortSlice firstActionLess
       (concat (map (serviceStatement (groupActionsByServiceWithActions actionList)) keys))"

definition policyStatements ::
  "PermissionMap option \<Rightarrow> string list \<Rightarrow> ParseResult \<Rightarrow> bool \<Rightarrow> bool \<Rightarrow> IAMStatement list" where
  "policyStatements permissionsDB keys result includeStateBackend leastPrivilege =
     (let actionList = sortedActionList permissionsDB result includeStateBackend in
      if leastPrivilege then leastPrivilegeStatements keys actionList
      else
        [\<lparr>Effect = ''Allow'', Action = groupActionsByService keys actionList, Resource = ''*''\<rparr>])"

subsection \<open>Encoding\<close>

definition nl :: string where
  "nl = [CHR 0x0A]"

definition statementText :: "IAMStatement \<Rightarrow> string" where
  \<open>statementText statement =
     ''  statement {'' @ nl @
     ''    effect = "'' @ Effect statement @ ''"'' @ nl @
     (if length (Action statement) > 0
      then ''    actions = ['' @ nl @
           concat (map (\<lambda>action. ''      "'' @ action @ ''",'' @ nl) (Action statement)) @
           ''    ]'' @ nl
      else '''') @
     ''    resources = ["'' @ Resource statement @ ''"]'' @ nl @
     ''  }''\<close>

fun joinStatements :: "string list \<Rightarrow> string" where
  "joinStatements [] = ''''"
| "joinStatements [s] = s"
| "joinStatements (s # rest) = s @ nl @ joinStatements rest"

definition generateTerraformOutput :: "IAMStatement list \<Rightarrow> string" where
  \<open>generateTerraformOutput statements =
     ''data "aws_iam_policy_document" "generated" {'' @ nl @
     joinStatements (map statementText statements) @
     nl @ ''}'' @ nl @
     nl @ ''resource "aws_iam_policy" "generated" {'' @ nl @
     ''  name   = "tf-iam-scanner-generated"'' @ nl @
     ''  policy = data.aws_iam_policy_document.generated.json'' @ nl @
     ''}'' @ nl\<close>

text \<open>
  The two encoders of libraries outside the repository, \<^verbatim>\<open>json.MarshalIndent\<close> and
  \<^verbatim>\<open>yaml.Marshal\<close>, are parameters.
\<close>

record encoders =
  MarshalIndent :: "IAMPolicy \<Rightarrow> error + string"
  yamlMarshal :: "IAMPolicy \<Rightarrow> error + string"

definition generateIAMPolicy ::
  "encoders \<Rightarrow> PermissionMap option \<Rightarrow> string list \<Rightarrow> ParseResult \<Rightarrow> bool \<Rightarrow> string \<Rightarrow> bool
     \<Rightarrow> error + string" where
  "generateIAMPolicy enc permissionsDB keys result includeStateBackend format leastPrivilege =
     (let statements = policyStatements permissionsDB keys result includeStateBackend leastPrivilege;
          policy = \<lparr>Version = ''2012-10-17'', Statement = statements\<rparr>
      in if format = ''json'' then
           (case MarshalIndent enc policy of
              Inl err \<Rightarrow> Inl (Wrapped ''error marshaling policy to JSON'' err)
            | Inr jsonBytes \<Rightarrow> Inr jsonBytes)
         else if format = ''yaml'' then
           (case yamlMarshal enc policy of
              Inl err \<Rightarrow> Inl (Wrapped ''error marshaling policy to YAML'' err)
            | Inr yamlBytes \<Rightarrow> Inr yamlBytes)
         else if format = ''terraform'' then Inr (generateTerraformOutput statements)
         else Inl (UnsupportedFormat format))"

section \<open>The example of the README\<close>

text \<open>
  The README's example: a file declaring \<^verbatim>\<open>aws_s3_bucket.my_bucket\<close> and \<^verbatim>\<open>aws_instance.web\<close>,
  as \<^verbatim>\<open>extractResourceFromBlock\<close> returns them, and the entries of the permissions
  database for the two types that give the seven actions of the policy the README shows.
\<close>

definition readmeResult :: ParseResult where
  "readmeResult =
     \<lparr>Resources =
        [\<lparr>Type = ''aws_s3_bucket'', Name = ''my_bucket'', Provider = ''aws'',
          Attributes = [''bucket'' \<mapsto> CtyString ''my-terraform-test''],
          ResourceType = ''aws_s3_bucket''\<rparr>,
         \<lparr>Type = ''aws_instance'', Name = ''web'', Provider = ''aws'',
          Attributes = [''ami'' \<mapsto> CtyString ''ami-12345678'',
                        ''instance_type'' \<mapsto> CtyString ''t2.micro''],
          ResourceType = ''aws_instance''\<rparr>],
      Backend = None, DataSources = []\<rparr>"

definition readmeDB :: "PermissionMap option" where
  "readmeDB =
     Some [''aws_instance'' \<mapsto>
             \<lparr>Actions = [''ec2:RunInstances'', ''ec2:TerminateInstances'', ''ec2:DescribeInstances''],
              ResourceTypes = []\<rparr>,
           ''aws_s3_bucket'' \<mapsto>
             \<lparr>Actions = [''s3:CreateBucket'', ''s3:DeleteBucket'', ''s3:GetBucketLocation'',
                         ''s3:ListBucket''],
              ResourceTypes = []\<rparr>]"

section \<open>A database with malformed identifiers\<close>

text \<open>
  The database is read from a file, so an entry can hold identifiers that are not of
  the form \<open>service:Verb\<close>. Here the bucket has one well-formed action, one with two
  separators and one with none; the instance has only malformed ones.
\<close>

definition malformedDB :: "PermissionMap option" where
  "malformedDB =
     Some [''aws_s3_bucket'' \<mapsto>
             \<lparr>Actions = [''s3:GetObject'', ''s3:Get:Object'', ''GetObject''], ResourceTypes = []\<rparr>,
           ''aws_instance'' \<mapsto> \<lparr>Actions = [''ec2'', ''ec2::Run''], ResourceTypes = []\<rparr>]"

definition bucketOnly :: ParseResult where
  "bucketOnly =
     \<lparr>Resources = [\<lparr>Type = ''aws_s3_bucket'', Name = ''b'', Provider = ''aws'',
                     Attributes = Map.empty, ResourceType = ''aws_s3_bucket''\<rparr>],
      Backend = None, DataSources = []\<rparr>"

definition instanceOnly :: ParseResult where
  "instanceOnly =
     \<lparr>Resources = [\<lparr>Type = ''aws_instance'', Name = ''web'', Provider = ''aws'',
                     Attributes = Map.empty, ResourceType = ''aws_instance''\<rparr>],
      Backend = None, DataSources = []\<rparr>"

section \<open>An example directory\<close>

text \<open>
  Files for the examples of the walk: two configuration files with one backend block
  each, one with both blocks, one that the HCL parser rejects (it ends inside a block),
  two state files, and a configuration file and a state file that cannot be read. The
  parser is a parameter; for each file it accepts, it is given the blocks of the file.
\<close>

definition mainTf :: string where
  \<open>mainTf = ''terraform {'' @ nl @ ''  backend "s3" {'' @ nl @ ''    bucket = "tf-state"'' @ nl @
            ''  }'' @ nl @ ''}'' @ nl\<close>

definition otherTf :: string where
  \<open>otherTf = ''terraform {'' @ nl @ ''  backend "gcs" {'' @ nl @ ''    bucket = "other"'' @ nl @
             ''  }'' @ nl @ ''}'' @ nl\<close>

definition twoTf :: string where
  "twoTf = mainTf @ otherTf"

definition brokenTf :: string where
  \<open>brokenTf = ''resource "aws_s3_bucket" "b" {'' @ nl @ ''  bucket = '' @ nl\<close>

definition stateJson :: string where
  \<open>stateJson = ''{"version": 4, "backend": {"type": "s3"}}''\<close>

definition s3Block :: hclBlock where
  "s3Block = Block ''terraform'' [] []
               [Block ''backend'' [''s3''] [(''bucket'', CtyString ''tf-state'')] []]"

definition gcsBlock :: hclBlock where
  "gcsBlock = Block ''terraform'' [] []
                [Block ''backend'' [''gcs''] [(''bucket'', CtyString ''other'')] []]"

definition exampleEnv :: env where
  "exampleEnv =
     \<lparr>ReadFile = (\<lambda>path.
        if path = ''main.tf'' then Inr mainTf
        else if path = ''other.tf'' then Inr otherTf
        else if path = ''two.tf'' then Inr twoTf
        else if path = ''broken.tf'' then Inr brokenTf
        else if path = ''terraform.tfstate'' then Inr stateJson
        else if path = ''a.tfstate'' then Inr stateJson
        else if path = ''secret.tf'' then Inl (IOError ''permission denied'')
        else if path = ''secret.tfstate'' then Inl (IOError ''permission denied'')
        else Inl (IOError ''no such file or directory'')),
      ParseConfig = (\<lambda>content.
        if content = mainTf then Some [s3Block]
        else if content = otherTf then Some [gcsBlock]
        else if content = twoTf then Some [s3Block, gcsBlock]
        else None),
      Unmarshal = (\<lambda>data. Inr (Some Map.empty))\<rparr>"

definition fileEntry :: "string \<Rightarrow> walkEntry" where
  "fileEntry name = \<lparr>entryPath = name, infoName = name, walkErr = None\<rparr>"

section \<open>Facts about the string functions\<close>

lemma Split_nonempty: "Split s sep \<noteq> []"
  by (induction s) (auto split: list.splits)

lemma length_Split: "length (Split s sep) = Suc (count_list s sep)"
  by (induction s) (auto simp: Split_nonempty split: list.splits)

text \<open>\<^verbatim>\<open>len(parts) == 2\<close> holds exactly for an identifier with one separator.\<close>

lemma Split_two:
  "(\<exists>service actionName. Split a sep = [service, actionName]) \<longleftrightarrow> count_list a sep = 1"
proof -
  have "(\<exists>x y. Split a sep = [x, y]) \<longleftrightarrow> length (Split a sep) = 2"
    by (auto simp: length_Suc_conv numeral_2_eq_2)
  then show ?thesis by (simp add: length_Split)
qed

section \<open>Grouping without least privilege\<close>

lemma collectPrefixes_None:
  "collectPrefixes actions m = None \<longleftrightarrow> (\<exists>a\<in>set actions. count_list a CHR '':'' \<noteq> 1)"
proof (induction actions arbitrary: m)
  case Nil
  then show ?case by simp
next
  case (Cons a actions)
  show ?case
  proof (cases "count_list a CHR '':'' = 1")
    case True
    then obtain s n where "Split a CHR '':'' = [s, n]"
      using Split_two by blast
    then show ?thesis using True Cons.IH by simp
  next
    case False
    then have "\<not> (\<exists>s n. Split a CHR '':'' = [s, n])"
      using Split_two by blast
    then have "collectPrefixes (a # actions) m = None"
      by (auto split: list.splits)
    then show ?thesis using False by simp
  qed
qed

lemma Split_no_sep: "count_list s sep = 0 \<Longrightarrow> Split s sep = [s]"
  by (induction s) (auto split: if_splits)

lemma Split_one_sep:
  "count_list a sep = 1 \<Longrightarrow>
   Split a sep = [takeWhile (\<lambda>c. c \<noteq> sep) a, tl (dropWhile (\<lambda>c. c \<noteq> sep) a)]"
  by (induction a) (auto simp: Split_no_sep split: if_splits)

lemma Split_wellformed:
  "count_list a CHR '':'' = 1 \<Longrightarrow> Split a CHR '':'' = [serviceOf a, actionNameOf a]"
  by (simp add: Split_one_sep serviceOf_def actionNameOf_def)

lemma cut_at_sep:
  "sep \<in> set a \<Longrightarrow>
   takeWhile (\<lambda>c. c \<noteq> sep) a @ sep # tl (dropWhile (\<lambda>c. c \<noteq> sep) a) = a"
  by (induction a) auto

lemma wellformed_parts:
  assumes "count_list a CHR '':'' = 1"
  shows "serviceOf a @ '':'' @ actionNameOf a = a"
proof -
  have "count_list a CHR '':'' \<noteq> 0" using assms by simp
  then have "CHR '':'' \<in> set a" by (simp add: count_list_0_iff)
  then show ?thesis
    using cut_at_sep[of "CHR '':''" a] by (simp add: serviceOf_def actionNameOf_def)
qed

lemma serviceOf_no_colon: "CHR '':'' \<notin> set (serviceOf a)"
proof
  assume "CHR '':'' \<in> set (serviceOf a)"
  then have "CHR '':'' \<noteq> CHR '':''"
    unfolding serviceOf_def by (rule set_takeWhileD[THEN conjunct2])
  then show False by simp
qed

lemma serviceOf_append: "CHR '':'' \<notin> set s \<Longrightarrow> serviceOf (s @ '':'' @ n) = s"
proof -
  assume a: "CHR '':'' \<notin> set s"
  have "takeWhile (\<lambda>c. c \<noteq> CHR '':'') (s @ (CHR '':'' # n))
        = s @ takeWhile (\<lambda>c. c \<noteq> CHR '':'') (CHR '':'' # n)"
    by (rule takeWhile_append2) (use a in auto)
  then show ?thesis by (simp add: serviceOf_def)
qed

lemma namesFor_Cons:
  "namesFor s (a # actions) = (if serviceOf a = s then actionNameOf a # namesFor s actions else namesFor s actions)"
  by (simp add: namesFor_def)

lemma collectPrefixes_wellformed:
  assumes "\<forall>a\<in>set actions. count_list a CHR '':'' = 1"
  shows "\<exists>m'. collectPrefixes actions m = Some m' \<and>
           (\<forall>s. m' s = (if namesFor s actions = [] then m s
                         else Some (mapIndex m s @ namesFor s actions)))"
  using assms
proof (induction actions arbitrary: m)
  case Nil
  then show ?case by (simp add: namesFor_def)
next
  case (Cons a actions)
  let ?m2 = "m(serviceOf a \<mapsto> mapIndex m (serviceOf a) @ [actionNameOf a])"
  have sp: "Split a CHR '':'' = [serviceOf a, actionNameOf a]"
    using Cons.prems by (simp add: Split_wellformed)
  have rest: "\<forall>a\<in>set actions. count_list a CHR '':'' = 1"
    using Cons.prems by simp
  obtain m' where m': "collectPrefixes actions ?m2 = Some m'"
    and at: "\<And>s. m' s = (if namesFor s actions = [] then ?m2 s
                         else Some (mapIndex ?m2 s @ namesFor s actions))"
    using Cons.IH[OF rest, of ?m2] by blast
  have step: "collectPrefixes (a # actions) m = Some m'"
    using m' by (simp add: sp)
  have "m' s = (if namesFor s (a # actions) = [] then m s
                else Some (mapIndex m s @ namesFor s (a # actions)))" for s
  proof (cases "serviceOf a = s")
    case True
    then show ?thesis by (simp add: at namesFor_Cons mapIndex_def)
  next
    case False
    then show ?thesis by (simp add: at namesFor_Cons mapIndex_def)
  qed
  with step show ?case by blast
qed


lemma filter_concat_own:
  assumes "distinct keys" and "k \<in> set keys"
    and "\<And>k' x. k' \<in> set keys \<Longrightarrow> x \<in> set (f k') \<Longrightarrow> g x = k'"
  shows "filter (\<lambda>x. g x = k) (concat (map f keys)) = f k"
  using assms
proof (induction keys)
  case Nil
  then show ?case by simp
next
  case (Cons k' keys)
  have own: "filter (\<lambda>x. g x = k') (f k') = f k'"
    using Cons.prems(3)[of k'] by (simp add: filter_id_conv)
  have other: "filter (\<lambda>x. g x = k) (f j) = []" if "j \<in> set (k' # keys)" "j \<noteq> k" for j
    using Cons.prems(3)[OF that(1)] that(2) by (auto simp: filter_empty_conv)
  show ?case
  proof (cases "k = k'")
    case True
    then have "k \<notin> set keys" using Cons.prems(1) by simp
    then have "filter (\<lambda>x. g x = k) (concat (map f keys)) = []"
      using other by (auto simp: filter_empty_conv)
    then show ?thesis using True own by simp
  next
    case False
    then have "k \<in> set keys" using Cons.prems(2) by simp
    moreover have "distinct keys" using Cons.prems(1) by simp
    ultimately have "filter (\<lambda>x. g x = k) (concat (map f keys)) = f k"
      using Cons.IH Cons.prems(3) by simp
    then show ?thesis using other[of k'] False by simp
  qed
qed

lemma servicePrefixes_from_empty:
  assumes "\<forall>a\<in>set actions. count_list a CHR '':'' = 1"
  obtains m where "collectPrefixes actions Map.empty = Some m"
    and "\<And>s. m s = (if namesFor s actions = [] then None else Some (namesFor s actions))"
proof -
  obtain m where "collectPrefixes actions Map.empty = Some m"
    and "\<And>s. m s = (if namesFor s actions = [] then Map.empty s
                       else Some (mapIndex Map.empty s @ namesFor s actions))"
    using collectPrefixes_wellformed[OF assms, of Map.empty] by blast
  then show ?thesis using that by (simp add: mapIndex_def)
qed

lemma namesFor_empty_iff: "namesFor s actions = [] \<longleftrightarrow> s \<notin> serviceOf ` set actions"
  unfolding namesFor_def by (simp add: filter_empty_conv image_iff) blast

lemma rebuild_actions:
  assumes "\<forall>a\<in>set actions. count_list a CHR '':'' = 1"
  shows "map (\<lambda>actionName. s @ '':'' @ actionName) (namesFor s actions)
         = filter (\<lambda>a. serviceOf a = s) actions"
  using assms
proof (induction actions)
  case Nil
  then show ?case by (simp add: namesFor_def)
next
  case (Cons a actions)
  have IH: "map (\<lambda>actionName. s @ '':'' @ actionName) (namesFor s actions)
            = filter (\<lambda>a. serviceOf a = s) actions"
    using Cons by simp
  show ?case
  proof (cases "serviceOf a = s")
    case True
    have "count_list a CHR '':'' = 1" using Cons.prems by simp
    then have eq: "s @ CHR '':'' # actionNameOf a = a"
      using wellformed_parts[of a] True by simp
    show ?thesis using IH by (simp add: namesFor_Cons True eq)
  next
    case False
    then show ?thesis using IH by (simp add: namesFor_Cons)
  qed
qed

lemma emitService_service:
  assumes "m s = Some names" and "s = serviceOf b" and "x \<in> set (emitService m s)"
  shows "serviceOf x = s"
proof -
  have nc: "CHR '':'' \<notin> set s" using assms(2) serviceOf_no_colon by simp
  from assms(1,3) consider "x = s @ '':'' @ ''*''" | n where "x = s @ '':'' @ n"
    by (auto simp: emitService_def split: if_splits)
  then show ?thesis
    using serviceOf_append[OF nc] by cases auto
qed

text \<open>
  Claim C7. Without least privilege, if some identifier of the sorted action list does
  not contain exactly one \<open>:\<close>, \<^verbatim>\<open>groupActionsByService\<close> returns the list it was given:
  nothing is collapsed and nothing is reordered, whatever order the map would have been
  iterated in, and wherever in the list the malformed identifier stands.
\<close>

theorem groupActionsByService_malformed_returns_input:
  assumes "\<exists>a\<in>set actions. count_list a CHR '':'' \<noteq> 1"
  shows "groupActionsByService keys actions = actions"
  using assms by (simp add: groupActionsByService_def collectPrefixes_None[THEN iffD2])

text \<open>
  The witness: six actions of one service, which alone would collapse to \<open>a:*\<close>,
  followed by an identifier with two separators.
\<close>

theorem groupActionsByService_malformed_witness:
  "count_list ''b:c:d'' CHR '':'' \<noteq> 1 \<and>
   groupActionsByService [''a'']
     [''a:1'', ''a:2'', ''a:3'', ''a:4'', ''a:5'', ''a:6'', ''b:c:d'']
   = [''a:1'', ''a:2'', ''a:3'', ''a:4'', ''a:5'', ''a:6'', ''b:c:d'']"
proof -
  have bad: "\<exists>a\<in>set [''a:1'', ''a:2'', ''a:3'', ''a:4'', ''a:5'', ''a:6'', ''b:c:d''].
               count_list a CHR '':'' \<noteq> 1"
    by simp
  show ?thesis
    using groupActionsByService_malformed_returns_input[OF bad, of "[''a'']"] by simp
qed

text \<open>
  When every identifier has exactly one \<open>:\<close>, the orders of the loop over
  \<^verbatim>\<open>servicePrefixes\<close> are the enumerations of the services of the list, each once.
\<close>

lemma servicePrefixesRange_wellformed:
  assumes wf: "\<forall>a\<in>set actions. count_list a CHR '':'' = 1"
  shows "servicePrefixesRange keys actions
         \<longleftrightarrow> distinct keys \<and> set keys = serviceOf ` set actions"
proof -
  obtain m where m: "collectPrefixes actions Map.empty = Some m"
    and at: "\<And>s. m s = (if namesFor s actions = [] then None else Some (namesFor s actions))"
    using servicePrefixes_from_empty[OF wf] by blast
  have "dom m = serviceOf ` set actions"
  proof (rule set_eqI)
    fix s
    show "s \<in> dom m \<longleftrightarrow> s \<in> serviceOf ` set actions"
      using namesFor_empty_iff[of s actions] by (simp add: dom_def at)
  qed
  then show ?thesis by (simp add: servicePrefixesRange_def m rangeOrder_def)
qed

text \<open>
  Claim C5 as stated, for every service of the action set, fails on the code: one
  identifier that does not have exactly one \<open>:\<close> makes \<^verbatim>\<open>groupActionsByService\<close> return
  its input by the early \<^verbatim>\<open>return actions\<close>. Below, \<open>ec2\<close> has six distinct actions and
  the list also holds the identifier \<open>s3\<close>, which has no \<open>:\<close>; the six actions come back
  one by one and not as \<open>ec2:*\<close>.
\<close>

theorem wildcard_threshold_malformed_counterexample:
  "map serviceOf [''ec2:A'', ''ec2:B'', ''ec2:C'', ''ec2:D'', ''ec2:E'', ''ec2:F'']
     = [''ec2'', ''ec2'', ''ec2'', ''ec2'', ''ec2'', ''ec2''] \<and>
   count_list ''s3'' CHR '':'' = 0 \<and>
   servicePrefixesRange [''ec2'']
     [''ec2:A'', ''ec2:B'', ''ec2:C'', ''ec2:D'', ''ec2:E'', ''ec2:F'', ''s3''] \<and>
   groupActionsByService [''ec2'']
     [''ec2:A'', ''ec2:B'', ''ec2:C'', ''ec2:D'', ''ec2:E'', ''ec2:F'', ''s3'']
   = [''ec2:A'', ''ec2:B'', ''ec2:C'', ''ec2:D'', ''ec2:E'', ''ec2:F'', ''s3'']"
proof -
  have none: "collectPrefixes
                [''ec2:A'', ''ec2:B'', ''ec2:C'', ''ec2:D'', ''ec2:E'', ''ec2:F'', ''s3'']
                Map.empty = None"
    unfolding collectPrefixes_None by simp
  show ?thesis
    by (simp add: groupActionsByService_def servicePrefixesRange_def none serviceOf_def)
qed

text \<open>
  Claim C5, amended with the condition under which grouping is in effect: every
  identifier of the list has exactly one \<open>:\<close> (otherwise the function returns its input,
  claim C7). Then, for every order of the loop over the map and every service of the
  list, the entries of the result that belong to the service are the single entry
  \<open>service:*\<close> when the service has more than 5 entries in the list, and otherwise
  exactly its entries of the list, each kept, in the list's order. The list that
  \<^verbatim>\<open>generateIAMPolicy\<close> passes has no repetition, so its entries of a service are the
  service's distinct actions.
\<close>

theorem groupActionsByService_wildcard_threshold:
  assumes wf: "\<forall>a\<in>set actions. count_list a CHR '':'' = 1"
    and range: "servicePrefixesRange keys actions"
    and svc: "service \<in> serviceOf ` set actions"
  shows "filter (\<lambda>a. serviceOf a = service) (groupActionsByService keys actions)
         = (if length (filter (\<lambda>a. serviceOf a = service) actions) > 5
            then [service @ '':*'']
            else filter (\<lambda>a. serviceOf a = service) actions)"
proof -
  obtain m where m: "collectPrefixes actions Map.empty = Some m"
    and at: "\<And>s. m s = (if namesFor s actions = [] then None else Some (namesFor s actions))"
    using servicePrefixes_from_empty[OF wf] by blast
  have present: "m s = Some (namesFor s actions)" if "s \<in> serviceOf ` set actions" for s
  proof -
    have "namesFor s actions \<noteq> []" using that by (simp add: namesFor_empty_iff)
    then show ?thesis by (simp add: at)
  qed
  have dom: "dom m = serviceOf ` set actions"
  proof (rule set_eqI)
    fix s
    show "s \<in> dom m \<longleftrightarrow> s \<in> serviceOf ` set actions"
      using namesFor_empty_iff[of s actions] by (simp add: dom_def at)
  qed
  have "rangeOrder keys m"
    using range by (simp add: servicePrefixesRange_def m)
  then have keys: "distinct keys" "set keys = serviceOf ` set actions"
    by (simp_all add: rangeOrder_def dom)
  have own: "serviceOf x = k" if "k \<in> set keys" "x \<in> set (emitService m k)" for k x
  proof -
    have k: "k \<in> serviceOf ` set actions" using that(1) by (simp add: keys(2))
    then obtain b where b: "k = serviceOf b" by blast
    show ?thesis
      by (rule emitService_service[OF present[OF k] b that(2)])
  qed
  have "filter (\<lambda>a. serviceOf a = service) (concat (map (emitService m) keys))
        = emitService m service"
  proof (rule filter_concat_own)
    show "distinct keys" by (rule keys(1))
    show "service \<in> set keys" using svc by (simp add: keys(2))
    show "\<And>k' x. k' \<in> set keys \<Longrightarrow> x \<in> set (emitService m k') \<Longrightarrow> serviceOf x = k'"
      by (rule own)
  qed
  then have "filter (\<lambda>a. serviceOf a = service) (groupActionsByService keys actions)
             = emitService m service"
    by (simp add: groupActionsByService_def m)
  moreover have "emitService m service
        = (if length (namesFor service actions) > 5 then [service @ '':*'']
           else filter (\<lambda>a. serviceOf a = service) actions)"
    using rebuild_actions[OF wf, of service]
    by (simp add: emitService_def present[OF svc])
  moreover have "length (namesFor service actions)
                 = length (filter (\<lambda>a. serviceOf a = service) actions)"
    by (simp add: namesFor_def)
  ultimately show ?thesis by simp
qed

text \<open>The witness: six actions of \<open>ec2\<close> and five of \<open>s3\<close>, the map iterated \<open>s3\<close> first.\<close>

theorem groupActionsByService_wildcard_threshold_witness:
  "servicePrefixesRange [''s3'', ''ec2'']
     [''ec2:A'', ''ec2:B'', ''ec2:C'', ''ec2:D'', ''ec2:E'', ''ec2:F'',
      ''s3:A'', ''s3:B'', ''s3:C'', ''s3:D'', ''s3:E''] \<and>
   filter (\<lambda>a. serviceOf a = ''ec2'')
     (groupActionsByService [''s3'', ''ec2'']
        [''ec2:A'', ''ec2:B'', ''ec2:C'', ''ec2:D'', ''ec2:E'', ''ec2:F'',
         ''s3:A'', ''s3:B'', ''s3:C'', ''s3:D'', ''s3:E''])
   = [''ec2:*''] \<and>
   filter (\<lambda>a. serviceOf a = ''s3'')
     (groupActionsByService [''s3'', ''ec2'']
        [''ec2:A'', ''ec2:B'', ''ec2:C'', ''ec2:D'', ''ec2:E'', ''ec2:F'',
         ''s3:A'', ''s3:B'', ''s3:C'', ''s3:D'', ''s3:E''])
   = [''s3:A'', ''s3:B'', ''s3:C'', ''s3:D'', ''s3:E'']"
proof -
  let ?acts = "[''ec2:A'', ''ec2:B'', ''ec2:C'', ''ec2:D'', ''ec2:E'', ''ec2:F'',
                ''s3:A'', ''s3:B'', ''s3:C'', ''s3:D'', ''s3:E'']"
  have wf: "\<forall>a\<in>set ?acts. count_list a CHR '':'' = 1"
    by simp
  have range: "servicePrefixesRange [''s3'', ''ec2''] ?acts"
    unfolding servicePrefixesRange_wellformed[OF wf] by (simp add: serviceOf_def insert_commute)
  have ec2: "''ec2'' \<in> serviceOf ` set ?acts" and s3: "''s3'' \<in> serviceOf ` set ?acts"
    by (simp_all add: serviceOf_def)
  show ?thesis
    using groupActionsByService_wildcard_threshold[OF wf range ec2]
      groupActionsByService_wildcard_threshold[OF wf range s3] range
    by (simp add: serviceOf_def)
qed

section \<open>The order of the actions without least privilege\<close>

text \<open>
  The sorted slice does not depend on the order in which the keys of the set were
  appended to it.
\<close>

lemma sort_range_order:
  assumes "mset keys = mset (collectActions permissionsDB result includeStateBackend)"
  shows "sort keys = sortedActionList permissionsDB result includeStateBackend"
  unfolding sortedActionList_def
  by (rule properties_for_sort) (simp_all add: assms)

lemma readme_actionList:
  "sortedActionList readmeDB readmeResult False =
     [''ec2:DescribeInstances'', ''ec2:RunInstances'', ''ec2:TerminateInstances'',
      ''s3:CreateBucket'', ''s3:DeleteBucket'', ''s3:GetBucketLocation'', ''s3:ListBucket'']"
  by (simp add: sortedActionList_def collectActions_def readmeDB_def readmeResult_def
      resourceActions_def getRequiredPermissions_def addAction_def)

lemma readme_statements:
  "policyStatements readmeDB keys readmeResult False False =
     [\<lparr>Effect = ''Allow'',
       Action = concat (map (emitService
                  [''ec2'' \<mapsto> [''DescribeInstances'', ''RunInstances'', ''TerminateInstances''],
                   ''s3'' \<mapsto> [''CreateBucket'', ''DeleteBucket'', ''GetBucketLocation'', ''ListBucket'']]) keys),
       Resource = ''*''\<rparr>]"
  by (simp add: policyStatements_def readme_actionList groupActionsByService_def mapIndex_def)

text \<open>
  Claim C1 fails on the code. \<^verbatim>\<open>generateIAMPolicy\<close> sorts the action list and then, without
  least privilege, hands it to \<^verbatim>\<open>groupActionsByService\<close>, which rebuilds it service by
  service in the order of a \<^verbatim>\<open>range\<close> over a map. On the README's example, when that loop
  yields \<open>s3\<close> before \<open>ec2\<close>, the single statement lists the \<open>s3\<close> actions first: the list
  is not in lexicographic order (the README prints it sorted).
\<close>

theorem policy_actions_unsorted_at_readme_example:
  "servicePrefixesRange [''s3'', ''ec2''] (sortedActionList readmeDB readmeResult False) \<and>
   map Action (policyStatements readmeDB [''s3'', ''ec2''] readmeResult False False) =
     [[''s3:CreateBucket'', ''s3:DeleteBucket'', ''s3:GetBucketLocation'', ''s3:ListBucket'',
       ''ec2:DescribeInstances'', ''ec2:RunInstances'', ''ec2:TerminateInstances'']] \<and>
   \<not> sorted [''s3:CreateBucket'', ''s3:DeleteBucket'', ''s3:GetBucketLocation'', ''s3:ListBucket'',
       ''ec2:DescribeInstances'', ''ec2:RunInstances'', ''ec2:TerminateInstances'']"
proof -
  have wf: "\<forall>a\<in>set (sortedActionList readmeDB readmeResult False). count_list a CHR '':'' = 1"
    by (simp add: readme_actionList)
  have "servicePrefixesRange [''s3'', ''ec2''] (sortedActionList readmeDB readmeResult False)"
    unfolding servicePrefixesRange_wellformed[OF wf]
    by (simp add: readme_actionList serviceOf_def insert_commute)
  moreover have "map Action (policyStatements readmeDB [''s3'', ''ec2''] readmeResult False False) =
     [[''s3:CreateBucket'', ''s3:DeleteBucket'', ''s3:GetBucketLocation'', ''s3:ListBucket'',
       ''ec2:DescribeInstances'', ''ec2:RunInstances'', ''ec2:TerminateInstances'']]"
    by (simp add: policyStatements_def readme_actionList groupActionsByService_def
        emitService_def mapIndex_def)
  moreover have "\<not> sorted [''s3:CreateBucket'', ''s3:DeleteBucket'', ''s3:GetBucketLocation'', ''s3:ListBucket'',
       ''ec2:DescribeInstances'', ''ec2:RunInstances'', ''ec2:TerminateInstances'']"
    by simp
  ultimately show ?thesis by blast
qed

text \<open>
  Claim C2 fails on the code, from the same loop: two runs on the README's example with
  the same flags, one iterating the map \<open>ec2\<close> first and the other \<open>s3\<close> first, return
  different texts in the Terraform format.
\<close>

theorem generateIAMPolicy_differs_between_runs:
  "servicePrefixesRange [''ec2'', ''s3''] (sortedActionList readmeDB readmeResult False) \<and>
   servicePrefixesRange [''s3'', ''ec2''] (sortedActionList readmeDB readmeResult False) \<and>
   generateIAMPolicy enc readmeDB [''ec2'', ''s3''] readmeResult False ''terraform'' False
   \<noteq> generateIAMPolicy enc readmeDB [''s3'', ''ec2''] readmeResult False ''terraform'' False"
proof -
  have wf: "\<forall>a\<in>set (sortedActionList readmeDB readmeResult False). count_list a CHR '':'' = 1"
    by (simp add: readme_actionList)
  have r1: "servicePrefixesRange [''ec2'', ''s3''] (sortedActionList readmeDB readmeResult False)"
    unfolding servicePrefixesRange_wellformed[OF wf]
    by (simp add: readme_actionList serviceOf_def insert_commute)
  have r2: "servicePrefixesRange [''s3'', ''ec2''] (sortedActionList readmeDB readmeResult False)"
    unfolding servicePrefixesRange_wellformed[OF wf]
    by (simp add: readme_actionList serviceOf_def insert_commute)
  have "generateIAMPolicy enc readmeDB [''ec2'', ''s3''] readmeResult False ''terraform'' False
   \<noteq> generateIAMPolicy enc readmeDB [''s3'', ''ec2''] readmeResult False ''terraform'' False"
    by (simp add: generateIAMPolicy_def readme_statements emitService_def
        generateTerraformOutput_def statementText_def nl_def)
  with r1 r2 show ?thesis by blast
qed

section \<open>The fallback line scanner\<close>

text \<open>Each line keeps the property that every declaration found so far has provider \<open>aws\<close>.\<close>

lemma scanDeclaration_Provider:
  assumes "\<forall>r\<in>set (Resources (scanResult st)) \<union> set (DataSources (scanResult st)). Provider r = ''aws''"
  shows "\<forall>r\<in>set (Resources (scanResult (scanDeclaration isData trimmed st)))
            \<union> set (DataSources (scanResult (scanDeclaration isData trimmed st))). Provider r = ''aws''"
  using assms by (auto simp: scanDeclaration_def Let_def)

lemma scanLine_Provider:
  assumes "\<forall>r\<in>set (Resources (scanResult st)) \<union> set (DataSources (scanResult st)). Provider r = ''aws''"
  shows "\<forall>r\<in>set (Resources (scanResult (scanLine st line)))
            \<union> set (DataSources (scanResult (scanLine st line))). Provider r = ''aws''"
proof -
  let ?t = "TrimSpace line"
  let ?st1 = "if HasPrefix ?t ''resource \"'' then scanDeclaration False ?t st
              else if HasPrefix ?t ''data \"'' then scanDeclaration True ?t st else st"
  have 1: "\<forall>r\<in>set (Resources (scanResult ?st1)) \<union> set (DataSources (scanResult ?st1)). Provider r = ''aws''"
    using assms scanDeclaration_Provider[OF assms] by simp
  show ?thesis
    using assms 1 by (simp add: scanLine_def Let_def)
qed

lemma scan_Provider:
  assumes "\<forall>r\<in>set (Resources (scanResult st)) \<union> set (DataSources (scanResult st)). Provider r = ''aws''"
  shows "\<forall>r\<in>set (Resources (scanResult (foldl scanLine st lines)))
            \<union> set (DataSources (scanResult (foldl scanLine st lines))). Provider r = ''aws''"
  using assms
proof (induction lines arbitrary: st)
  case Nil
  then show ?case by simp
next
  case (Cons line lines)
  show ?case
    using Cons.IH[OF scanLine_Provider[OF Cons.prems]] by simp
qed

lemma fallback_example:
  \<open>extractWithSimpleParsing
      (''resource "google_storage_bucket" "b" {'' @ nl @ ''  name = '' @ nl @
       ''data "google_compute_image" "img" {'') ''main.tf''
    = Inr \<lparr>Resources = [\<lparr>Type = ''google_storage_bucket'', Name = ''b'', Provider = ''aws'',
                           Attributes = Map.empty, ResourceType = ''google_storage_bucket''\<rparr>],
           Backend = None,
           DataSources = [\<lparr>Type = ''google_compute_image'', Name = ''img'', Provider = ''aws'',
                           Attributes = Map.empty, ResourceType = ''google_compute_image''\<rparr>]\<rparr>\<close>
  by (simp add: extractWithSimpleParsing_def scanLine_def scanDeclaration_def TrimSpace_def
      Trim_def Fields_def isSpace_def emptyResult_def nl_def Let_def)

text \<open>
  Claim C9. The fallback scanner always returns a result, and every resource and every
  data reference in it has provider \<open>aws\<close>, whatever its type is. A resource it returns
  therefore passes the provider test of \<^verbatim>\<open>generateIAMPolicy\<close>: the actions it marks are those
  the database has for its type (none only when the type is the empty string).
\<close>

theorem fallback_scanner_provider_aws:
  "\<exists>result. extractWithSimpleParsing content filePath = Inr result \<and>
     (\<forall>r\<in>set (Resources result). Provider r = ''aws'' \<and>
         resourceActions permissionsDB r
         = (if Type r = '''' then [] else getRequiredPermissions permissionsDB (Type r))) \<and>
     (\<forall>d\<in>set (DataSources result). Provider d = ''aws'')"
proof -
  let ?st0 = "\<lparr>scanResult = emptyResult, currentBlock = '''', currentName = ''''\<rparr>"
  have "\<forall>r\<in>set (Resources (scanResult ?st0)) \<union> set (DataSources (scanResult ?st0)). Provider r = ''aws''"
    by (simp add: emptyResult_def)
  from scan_Provider[OF this, of "Split content CHR 0x0A"]
  show ?thesis
    by (auto simp: extractWithSimpleParsing_def resourceActions_def)
qed

text \<open>
  The witness: a file that ends inside its second block, with a resource and a data
  reference of another provider.
\<close>

theorem fallback_scanner_provider_aws_witness:
  \<open>map (\<lambda>r. (Type r, Provider r))
     (case extractWithSimpleParsing
             (''resource "google_storage_bucket" "b" {'' @ nl @ ''  name = '' @ nl @
              ''data "google_compute_image" "img" {'') ''main.tf''
      of Inl err \<Rightarrow> [] | Inr result \<Rightarrow> Resources result @ DataSources result)
   = [(''google_storage_bucket'', ''aws''), (''google_compute_image'', ''aws'')]\<close>
  using fallback_scanner_provider_aws
          [of \<open>''resource "google_storage_bucket" "b" {'' @ nl @ ''  name = '' @ nl @
               ''data "google_compute_image" "img" {''\<close> "''main.tf''" None]
  unfolding fallback_example by simp

section \<open>The action set\<close>

lemma set_addAction: "set (addAction actions action) = insert action (set actions)"
  by (auto simp: addAction_def)

lemma distinct_addAction: "distinct actions \<Longrightarrow> distinct (addAction actions action)"
  by (simp add: addAction_def)

lemma set_foldl_addAction: "set (foldl addAction actions new) = set actions \<union> set new"
  by (induction new arbitrary: actions) (auto simp: set_addAction)

lemma distinct_foldl_addAction: "distinct actions \<Longrightarrow> distinct (foldl addAction actions new)"
  by (induction new arbitrary: actions) (auto simp: distinct_addAction)

lemma set_collect_loop:
  "set (foldl (\<lambda>actions x. foldl addAction actions (f x)) actions xs)
   = set actions \<union> (\<Union>x\<in>set xs. set (f x))"
  by (induction xs arbitrary: actions) (auto simp: set_foldl_addAction)

lemma distinct_collect_loop:
  "distinct actions \<Longrightarrow> distinct (foldl (\<lambda>actions x. foldl addAction actions (f x)) actions xs)"
  by (induction xs arbitrary: actions) (auto simp: distinct_foldl_addAction)

lemma set_collectActions:
  "set (collectActions permissionsDB result includeStateBackend)
   = (\<Union>r\<in>set (Resources result). set (resourceActions permissionsDB r))
     \<union> (\<Union>d\<in>set (DataSources result). set (dataSourceActions permissionsDB d))
     \<union> (if includeStateBackend \<or> Backend result \<noteq> None then set backendActions else {})"
  by (simp add: collectActions_def Let_def set_collect_loop set_foldl_addAction)

lemma distinct_collectActions:
  "distinct (collectActions permissionsDB result includeStateBackend)"
  by (simp add: collectActions_def Let_def distinct_collect_loop distinct_foldl_addAction)

lemma set_dataSourceActions:
  "set (dataSourceActions permissionsDB d)
   = (if Provider d = ''aws'' \<and> Type d \<noteq> ''''
      then {a \<in> set (getRequiredPermissions permissionsDB (TrimPrefix (Type d) ''data.'')).
              Contains a ''Describe'' \<or> Contains a ''Get'' \<or> Contains a ''List''}
      else {})"
  by (simp add: dataSourceActions_def isReadOnly_def)

text \<open>
  Claim C6 as stated, for every data reference of the \<^verbatim>\<open>ParseResult\<close>, fails on the code:
  the loop over the data sources has the same guard as the loop over the resources
  (\<^verbatim>\<open>dataSource.Provider == "aws" && dataSource.Type != ""\<close>). In the input below the first
  data reference has another provider and the second the empty type; the database has
  read-only actions for the type of each (\<open>s3:GetObject\<close> for \<open>aws_s3_bucket\<close>,
  \<open>ec2:DescribeInstances\<close> for the empty type), and neither is contributed: the action
  list is empty.
\<close>

theorem dataSource_guard_counterexample:
  "getRequiredPermissions
     (Some [''aws_s3_bucket'' \<mapsto> \<lparr>Actions = [''s3:GetObject'', ''s3:CreateBucket''], ResourceTypes = []\<rparr>,
            '''' \<mapsto> \<lparr>Actions = [''ec2:DescribeInstances''], ResourceTypes = []\<rparr>])
     (TrimPrefix ''data.aws_s3_bucket'' ''data.'') = [''s3:GetObject'', ''s3:CreateBucket''] \<and>
   Contains ''s3:GetObject'' ''Get'' \<and>
   getRequiredPermissions
     (Some [''aws_s3_bucket'' \<mapsto> \<lparr>Actions = [''s3:GetObject'', ''s3:CreateBucket''], ResourceTypes = []\<rparr>,
            '''' \<mapsto> \<lparr>Actions = [''ec2:DescribeInstances''], ResourceTypes = []\<rparr>])
     (TrimPrefix '''' ''data.'') = [''ec2:DescribeInstances''] \<and>
   Contains ''ec2:DescribeInstances'' ''Describe'' \<and>
   sortedActionList
     (Some [''aws_s3_bucket'' \<mapsto> \<lparr>Actions = [''s3:GetObject'', ''s3:CreateBucket''], ResourceTypes = []\<rparr>,
            '''' \<mapsto> \<lparr>Actions = [''ec2:DescribeInstances''], ResourceTypes = []\<rparr>])
     \<lparr>Resources = [], Backend = None,
      DataSources = [\<lparr>Type = ''data.aws_s3_bucket'', Name = ''b'', Provider = ''google'',
                      Attributes = Map.empty, ResourceType = ''data.aws_s3_bucket''\<rparr>,
                     \<lparr>Type = '''', Name = ''x'', Provider = ''aws'',
                      Attributes = Map.empty, ResourceType = ''''\<rparr>]\<rparr>
     False
   = []"
  by (simp add: sortedActionList_def collectActions_def dataSourceActions_def
      getRequiredPermissions_def TrimPrefix_def)

text \<open>
  Claim C6, amended. The action set is exactly the union of what the resources
  contribute, what the data references contribute and, when requested or when a backend
  was detected, the backend actions; and a data reference whose provider is \<open>aws\<close> and
  whose type is not empty contributes exactly those actions, found in the database under
  its type with a leading \<open>data.\<close> removed, that contain \<open>Describe\<close>, \<open>Get\<close> or \<open>List\<close>
  (as byte strings, so with the case as written). Any other data reference contributes
  nothing.
\<close>

theorem dataSource_contribution:
  "set (sortedActionList permissionsDB result includeStateBackend)
   = (\<Union>r\<in>set (Resources result). set (resourceActions permissionsDB r))
     \<union> (\<Union>d\<in>set (DataSources result).
          if Provider d = ''aws'' \<and> Type d \<noteq> ''''
          then {a \<in> set (getRequiredPermissions permissionsDB (TrimPrefix (Type d) ''data.'')).
                  Contains a ''Describe'' \<or> Contains a ''Get'' \<or> Contains a ''List''}
          else {})
     \<union> (if includeStateBackend \<or> Backend result \<noteq> None then set backendActions else {})"
  by (simp add: sortedActionList_def set_collectActions set_dataSourceActions)

text \<open>The witness is the example of the claim.\<close>

theorem dataSource_contribution_witness:
  "sortedActionList
     (Some [''aws_s3_bucket'' \<mapsto> \<lparr>Actions = [''s3:GetObject'', ''s3:CreateBucket''], ResourceTypes = []\<rparr>])
     \<lparr>Resources = [], Backend = None,
      DataSources = [\<lparr>Type = ''data.aws_s3_bucket'', Name = ''b'', Provider = ''aws'',
                      Attributes = Map.empty, ResourceType = ''data.aws_s3_bucket''\<rparr>]\<rparr>
     False
   = [''s3:GetObject'']"
  using dataSource_contribution[of "Some [''aws_s3_bucket'' \<mapsto> \<lparr>Actions = [''s3:GetObject'', ''s3:CreateBucket''], ResourceTypes = []\<rparr>]"
     "\<lparr>Resources = [], Backend = None,
      DataSources = [\<lparr>Type = ''data.aws_s3_bucket'', Name = ''b'', Provider = ''aws'',
                      Attributes = Map.empty, ResourceType = ''data.aws_s3_bucket''\<rparr>]\<rparr>" False]
  by (simp add: sortedActionList_def collectActions_def dataSourceActions_def isReadOnly_def
      getRequiredPermissions_def TrimPrefix_def addAction_def)

section \<open>Least privilege\<close>

lemma Split_not_two:
  assumes "count_list a CHR '':'' \<noteq> 1"
  shows "(case Split a CHR '':'' of [service, actionName] \<Rightarrow> f service actionName | _ \<Rightarrow> d) = d"
proof -
  have "\<not> (\<exists>s n. Split a CHR '':'' = [s, n])"
    using assms Split_two by blast
  then show ?thesis by (auto split: list.splits)
qed

lemma groupWithActions_at:
  "groupWithActions actions m s =
     (if filter (\<lambda>a. count_list a CHR '':'' = 1 \<and> serviceOf a = s) actions = [] then m s
      else Some (mapIndex m s @ filter (\<lambda>a. count_list a CHR '':'' = 1 \<and> serviceOf a = s) actions))"
proof (induction actions arbitrary: m)
  case Nil
  then show ?case by simp
next
  case (Cons a actions)
  show ?case
  proof (cases "count_list a CHR '':'' = 1")
    case True
    then have sp: "Split a CHR '':'' = [serviceOf a, actionNameOf a]"
      by (rule Split_wellformed)
    show ?thesis
    proof (cases "serviceOf a = s")
      case same: True
      show ?thesis using True same by (simp add: sp Cons.IH mapIndex_def)
    next
      case other: False
      show ?thesis using True other by (simp add: sp Cons.IH mapIndex_def)
    qed
  next
    case False
    then show ?thesis by (simp add: Split_not_two Cons.IH)
  qed
qed

lemma grouped_at:
  "groupActionsByServiceWithActions actions s =
     (if filter (\<lambda>a. count_list a CHR '':'' = 1 \<and> serviceOf a = s) actions = [] then None
      else Some (filter (\<lambda>a. count_list a CHR '':'' = 1 \<and> serviceOf a = s) actions))"
  by (simp add: groupActionsByServiceWithActions_def groupWithActions_at mapIndex_def)

lemma mset_moveLeft: "mset (moveLeft lessFn x ys) = add_mset x (mset ys)"
  by (induction ys) auto

lemma mset_sortSlice: "mset (sortSlice lessFn xs) = mset xs"
proof -
  have "mset (foldl (\<lambda>sortedRev x. moveLeft lessFn x sortedRev) acc xs) = mset acc + mset xs" for acc
    by (induction xs arbitrary: acc) (auto simp: mset_moveLeft)
  then show ?thesis by (simp add: sortSlice_def)
qed

lemma set_sortSlice: "set (sortSlice lessFn xs) = set xs"
  using mset_sortSlice[of lessFn xs] by (metis set_mset_mset)

lemma sortSlice_Nil: "sortSlice lessFn [] = []"
  by (simp add: sortSlice_def)

lemma statement_actions:
  assumes "st \<in> set (leastPrivilegeStatements keys actions)"
  obtains s where "s \<in> set keys"
    and "Action st = filter (\<lambda>a. count_list a CHR '':'' = 1 \<and> serviceOf a = s) actions"
    and "Action st \<noteq> []"
proof -
  from assms obtain s where s: "s \<in> set keys"
    and st: "st \<in> set (serviceStatement (groupActionsByServiceWithActions actions) s)"
    by (auto simp: leastPrivilegeStatements_def set_sortSlice)
  then show ?thesis
    using that[of s] by (auto simp: serviceStatement_def grouped_at split: if_splits)
qed


lemma leastPrivilegeStatements_wellformed:
  assumes "st \<in> set (leastPrivilegeStatements keys actions)" and "a \<in> set (Action st)"
  shows "count_list a CHR '':'' = 1 \<and> a \<in> set actions"
proof -
  obtain s where "Action st = filter (\<lambda>a. count_list a CHR '':'' = 1 \<and> serviceOf a = s) actions"
    using statement_actions[OF assms(1)] by blast
  then show ?thesis using assms(2) by simp
qed

lemma leastPrivilegeStatements_complete:
  assumes range: "rangeOrder keys (groupActionsByServiceWithActions actions)"
    and a: "a \<in> set actions" "count_list a CHR '':'' = 1"
  shows "\<exists>st\<in>set (leastPrivilegeStatements keys actions). a \<in> set (Action st)"
proof -
  let ?own = "filter (\<lambda>b. count_list b CHR '':'' = 1 \<and> serviceOf b = serviceOf a) actions"
  let ?g = "groupActionsByServiceWithActions actions"
  have mem: "a \<in> set ?own" using a by simp
  have "?own \<noteq> []" using a by (auto simp: filter_empty_conv)
  then have g: "?g (serviceOf a) = Some ?own" by (simp add: grouped_at)
  then have "serviceOf a \<in> dom ?g" by blast
  then have key: "serviceOf a \<in> set keys" using range by (simp add: rangeOrder_def)
  let ?st = "\<lparr>Effect = ''Allow'', Action = ?own, Resource = getResourceARNForService (serviceOf a)\<rparr>"
  have "?st \<in> set (serviceStatement ?g (serviceOf a))"
    by (simp add: serviceStatement_def g)
  then have "?st \<in> set (concat (map (serviceStatement ?g) keys))"
    using key by auto
  then have "?st \<in> set (leastPrivilegeStatements keys actions)"
    by (simp add: leastPrivilegeStatements_def set_sortSlice)
  moreover have "a \<in> set (Action ?st)" using mem by simp
  ultimately show ?thesis by blast
qed

lemma leastPrivilegeStatements_all_malformed:
  assumes "\<forall>a\<in>set actions. count_list a CHR '':'' \<noteq> 1"
  shows "leastPrivilegeStatements keys actions = []"
proof -
  have "filter (\<lambda>a. count_list a CHR '':'' = 1 \<and> serviceOf a = s) actions = []" for s
    using assms by (simp add: filter_empty_conv)
  then have "groupActionsByServiceWithActions actions s = None" for s
    by (simp add: grouped_at)
  then have "serviceStatement (groupActionsByServiceWithActions actions) s = []" for s
    by (simp add: serviceStatement_def)
  then have none: "concat (map (serviceStatement (groupActionsByServiceWithActions actions)) keys) = []"
    by simp
  show ?thesis
    unfolding leastPrivilegeStatements_def none by (rule sortSlice_Nil)
qed

lemma malformed_lists:
  "sortedActionList malformedDB bucketOnly False = [''GetObject'', ''s3:Get:Object'', ''s3:GetObject'']"
  "sortedActionList malformedDB instanceOnly False = [''ec2'', ''ec2::Run'']"
  by (simp_all add: sortedActionList_def collectActions_def resourceActions_def
      getRequiredPermissions_def addAction_def malformedDB_def bucketOnly_def instanceOnly_def)

text \<open>
  Claim C10. With least privilege, for every input and every order of the loop over the
  map: no statement holds an identifier that does not have exactly one \<open>:\<close>; when the
  loop runs in an order of the map's keys, the statements together hold exactly the
  identifiers of the sorted action list that have exactly one \<open>:\<close>, so the others are
  dropped and nothing else is; and when no identifier of the list has exactly one \<open>:\<close>
  the list of statements is empty.
\<close>

theorem leastPrivilege_drops_malformed:
  "(\<forall>st\<in>set (policyStatements permissionsDB keys result includeStateBackend True).
      \<forall>a\<in>set (Action st). count_list a CHR '':'' = 1) \<and>
   (rangeOrder keys
      (groupActionsByServiceWithActions (sortedActionList permissionsDB result includeStateBackend))
    \<longrightarrow> (\<Union>st\<in>set (policyStatements permissionsDB keys result includeStateBackend True).
           set (Action st))
        = {a \<in> set (sortedActionList permissionsDB result includeStateBackend).
             count_list a CHR '':'' = 1}) \<and>
   ((\<forall>a\<in>set (sortedActionList permissionsDB result includeStateBackend).
       count_list a CHR '':'' \<noteq> 1)
    \<longrightarrow> policyStatements permissionsDB keys result includeStateBackend True = [])"
proof -
  let ?actions = "sortedActionList permissionsDB result includeStateBackend"
  have ps: "policyStatements permissionsDB keys result includeStateBackend True
            = leastPrivilegeStatements keys ?actions"
    by (simp add: policyStatements_def)
  have 1: "\<forall>st\<in>set (leastPrivilegeStatements keys ?actions).
             \<forall>a\<in>set (Action st). count_list a CHR '':'' = 1"
    using leastPrivilegeStatements_wellformed by blast
  have 2: "(\<Union>st\<in>set (leastPrivilegeStatements keys ?actions). set (Action st))
           = {a \<in> set ?actions. count_list a CHR '':'' = 1}"
    if "rangeOrder keys (groupActionsByServiceWithActions ?actions)"
  proof (intro set_eqI iffI)
    fix a
    assume "a \<in> (\<Union>st\<in>set (leastPrivilegeStatements keys ?actions). set (Action st))"
    then show "a \<in> {a \<in> set ?actions. count_list a CHR '':'' = 1}"
      using leastPrivilegeStatements_wellformed by blast
  next
    fix a
    assume "a \<in> {a \<in> set ?actions. count_list a CHR '':'' = 1}"
    then show "a \<in> (\<Union>st\<in>set (leastPrivilegeStatements keys ?actions). set (Action st))"
      using leastPrivilegeStatements_complete[OF that] by blast
  qed
  have 3: "leastPrivilegeStatements keys ?actions = []"
    if "\<forall>a\<in>set ?actions. count_list a CHR '':'' \<noteq> 1"
    using that by (rule leastPrivilegeStatements_all_malformed)
  show ?thesis
    unfolding ps using 1 2 3 by blast
qed

text \<open>
  The witness: the bucket keeps its one well-formed action, in a single statement; the
  instance, all of whose identifiers are malformed, yields no statement.
\<close>

theorem leastPrivilege_drops_malformed_witness:
  "rangeOrder [''s3'']
     (groupActionsByServiceWithActions (sortedActionList malformedDB bucketOnly False)) \<and>
   policyStatements malformedDB [''s3''] bucketOnly False True
     = [\<lparr>Effect = ''Allow'', Action = [''s3:GetObject''], Resource = ''arn:aws:s3:::*''\<rparr>] \<and>
   policyStatements malformedDB [] instanceOnly False True = []"
proof -
  have "rangeOrder [''s3'']
     (groupActionsByServiceWithActions (sortedActionList malformedDB bucketOnly False))"
    by (simp add: malformed_lists groupActionsByServiceWithActions_def rangeOrder_def mapIndex_def)
  moreover have "policyStatements malformedDB [''s3''] bucketOnly False True
     = [\<lparr>Effect = ''Allow'', Action = [''s3:GetObject''], Resource = ''arn:aws:s3:::*''\<rparr>]"
    by (simp add: policyStatements_def malformed_lists leastPrivilegeStatements_def
        groupActionsByServiceWithActions_def mapIndex_def serviceStatement_def sortSlice_def
        getResourceARNForService_def arnMap_def)
  moreover have "\<forall>a\<in>set (sortedActionList malformedDB instanceOnly False).
                   count_list a CHR '':'' \<noteq> 1"
    by (simp add: malformed_lists)
  ultimately show ?thesis
    using leastPrivilege_drops_malformed[of malformedDB "[]" instanceOnly False] by blast
qed

subsection \<open>The order of the statements with least privilege\<close>

lemma moveLeft_cong:
  assumes "\<And>y. y \<in> set ys \<Longrightarrow> lessFn x y = lessFn' x y"
  shows "moveLeft lessFn x ys = moveLeft lessFn' x ys"
  using assms by (induction ys) auto

lemma moveLeft_sorted:
  fixes f :: "'a \<Rightarrow> 'k::linorder"
  assumes "sorted (rev (map f ys))"
  shows "sorted (rev (map f (moveLeft (\<lambda>a b. f a < f b) x ys)))"
  using assms
proof (induction ys)
  case Nil
  then show ?case by simp
next
  case (Cons y ys)
  show ?case
  proof (cases "f x < f y")
    case True
    have "sorted (rev (map f ys))" using Cons.prems by (simp add: sorted_append)
    then have IH: "sorted (rev (map f (moveLeft (\<lambda>a b. f a < f b) x ys)))" by (rule Cons.IH)
    have "set (moveLeft (\<lambda>a b. f a < f b) x ys) = insert x (set ys)"
      by (induction ys) auto
    then show ?thesis
      using True IH Cons.prems by (auto simp: sorted_append)
  next
    case False
    then show ?thesis using Cons.prems by (auto simp: sorted_append)
  qed
qed

lemma sortSlice_sorted:
  fixes f :: "'a \<Rightarrow> 'k::linorder"
  shows "sorted (map f (sortSlice (\<lambda>a b. f a < f b) xs))"
proof -
  have "sorted (rev (map f (foldl (\<lambda>sortedRev x. moveLeft (\<lambda>a b. f a < f b) x sortedRev) acc xs)))"
    if "sorted (rev (map f acc))" for acc
    using that by (induction xs arbitrary: acc) (auto simp: moveLeft_sorted)
  from this[of "[]"] show ?thesis by (simp add: sortSlice_def rev_map)
qed

lemma set_moveLeft: "set (moveLeft lessFn x ys) = insert x (set ys)"
  by (induction ys) auto

lemma sortSlice_cong:
  assumes "\<And>x y. x \<in> set xs \<Longrightarrow> y \<in> set xs \<Longrightarrow> lessFn x y = lessFn' x y"
  shows "sortSlice lessFn xs = sortSlice lessFn' xs"
proof -
  have "foldl (\<lambda>sortedRev x. moveLeft lessFn x sortedRev) acc zs
        = foldl (\<lambda>sortedRev x. moveLeft lessFn' x sortedRev) acc zs"
    if "set acc \<union> set zs \<subseteq> set xs" for acc zs
    using that
  proof (induction zs arbitrary: acc)
    case Nil
    then show ?case by simp
  next
    case (Cons z zs)
    have "moveLeft lessFn z acc = moveLeft lessFn' z acc"
      using Cons.prems assms by (intro moveLeft_cong) auto
    moreover have "set (moveLeft lessFn' z acc) \<union> set zs \<subseteq> set xs"
      using Cons.prems by (auto simp: set_moveLeft)
    ultimately show ?case using Cons.IH by simp
  qed
  from this[of "[]" xs] show ?thesis by (simp add: sortSlice_def)
qed


lemma sortSlice_unique:
  fixes f :: "'a \<Rightarrow> 'k::linorder"
  assumes "mset xs = mset ys" and "inj_on f (set xs)"
  shows "sortSlice (\<lambda>a b. f a < f b) xs = sortSlice (\<lambda>a b. f a < f b) ys"
proof -
  let ?r1 = "sortSlice (\<lambda>a b. f a < f b) xs" and ?r2 = "sortSlice (\<lambda>a b. f a < f b) ys"
  have m: "mset ?r1 = mset xs" "mset ?r2 = mset xs"
    using assms(1) by (simp_all add: mset_sortSlice)
  have "sort (map f xs) = map f ?r1"
    by (rule properties_for_sort) (simp_all add: m sortSlice_sorted)
  moreover have "sort (map f xs) = map f ?r2"
    by (rule properties_for_sort) (simp_all add: m sortSlice_sorted)
  ultimately have eq: "map f ?r1 = map f ?r2" by simp
  have "set ?r1 = set xs" "set ?r2 = set xs"
    using m by (metis set_mset_mset)+
  then have "inj_on f (set ?r1 \<union> set ?r2)" using assms(2) by simp
  then show ?thesis using eq by (simp add: inj_on_map_eq_map)
qed

lemma mset_concat_map:
  "mset (concat (map h ks)) = sum_mset (image_mset (\<lambda>k. mset (h k)) (mset ks))"
  by (induction ks) auto

lemma statement_form:
  assumes "st \<in> set (concat (map (serviceStatement (groupActionsByServiceWithActions actions)) keys))"
  obtains s where
    "st = \<lparr>Effect = ''Allow'',
           Action = filter (\<lambda>a. count_list a CHR '':'' = 1 \<and> serviceOf a = s) actions,
           Resource = getResourceARNForService s\<rparr>"
    and "filter (\<lambda>a. count_list a CHR '':'' = 1 \<and> serviceOf a = s) actions \<noteq> []"
proof -
  from assms obtain s where
    "st \<in> set (serviceStatement (groupActionsByServiceWithActions actions) s)"
    by auto
  then show ?thesis
    using that[of s] by (auto simp: serviceStatement_def grouped_at split: if_splits)
qed

lemma first_action_service:
  assumes "filter (\<lambda>a. count_list a CHR '':'' = 1 \<and> serviceOf a = s) actions \<noteq> []"
  shows "serviceOf (hd (filter (\<lambda>a. count_list a CHR '':'' = 1 \<and> serviceOf a = s) actions)) = s"
proof -
  have "hd (filter (\<lambda>a. count_list a CHR '':'' = 1 \<and> serviceOf a = s) actions)
        \<in> set (filter (\<lambda>a. count_list a CHR '':'' = 1 \<and> serviceOf a = s) actions)"
    using assms by (rule hd_in_set)
  then show ?thesis by simp
qed

lemma first_action_inj:
  "inj_on (\<lambda>st. hd (Action st))
     (set (concat (map (serviceStatement (groupActionsByServiceWithActions actions)) keys)))"
proof (rule inj_onI)
  fix st st'
  assume st: "st \<in> set (concat (map (serviceStatement (groupActionsByServiceWithActions actions)) keys))"
    and st': "st' \<in> set (concat (map (serviceStatement (groupActionsByServiceWithActions actions)) keys))"
    and eq: "hd (Action st) = hd (Action st')"
  obtain s where s: "st = \<lparr>Effect = ''Allow'',
           Action = filter (\<lambda>a. count_list a CHR '':'' = 1 \<and> serviceOf a = s) actions,
           Resource = getResourceARNForService s\<rparr>"
    and ne: "filter (\<lambda>a. count_list a CHR '':'' = 1 \<and> serviceOf a = s) actions \<noteq> []"
    using statement_form[OF st] by blast
  obtain s' where s': "st' = \<lparr>Effect = ''Allow'',
           Action = filter (\<lambda>a. count_list a CHR '':'' = 1 \<and> serviceOf a = s') actions,
           Resource = getResourceARNForService s'\<rparr>"
    and ne': "filter (\<lambda>a. count_list a CHR '':'' = 1 \<and> serviceOf a = s') actions \<noteq> []"
    using statement_form[OF st'] by blast
  have "s = serviceOf (hd (Action st))"
    using first_action_service[OF ne] by (simp add: s)
  moreover have "s' = serviceOf (hd (Action st'))"
    using first_action_service[OF ne'] by (simp add: s')
  ultimately have "s = s'" using eq by simp
  then show "st = st'" using s s' by simp
qed

text \<open>
  With least privilege the statements do not depend on the order of the loop over the
  map: the comparison that \<^verbatim>\<open>sort.Slice\<close> is given orders the statements strictly, by
  first actions that differ from service to service.
\<close>

lemma leastPrivilegeStatements_order_free:
  assumes "rangeOrder keys1 (groupActionsByServiceWithActions actions)"
    and "rangeOrder keys2 (groupActionsByServiceWithActions actions)"
  shows "leastPrivilegeStatements keys1 actions = leastPrivilegeStatements keys2 actions"
proof -
  let ?g = "groupActionsByServiceWithActions actions"
  let ?xs = "\<lambda>keys. concat (map (serviceStatement ?g) keys)"
  let ?f = "\<lambda>st. hd (Action st)"
  have "mset keys1 = mset keys2"
    using assms by (simp add: rangeOrder_def set_eq_iff_mset_eq_distinct[symmetric])
  then have perm: "mset (?xs keys1) = mset (?xs keys2)"
    by (simp add: mset_concat_map)
  have agree: "sortSlice firstActionLess (?xs keys) = sortSlice (\<lambda>a b. ?f a < ?f b) (?xs keys)"
    for keys
  proof (rule sortSlice_cong)
    fix x y
    assume x: "x \<in> set (?xs keys)" and y: "y \<in> set (?xs keys)"
    have ne: "Action z \<noteq> []" if z: "z \<in> set (?xs keys)" for z
    proof -
      obtain s where "z = \<lparr>Effect = ''Allow'',
           Action = filter (\<lambda>a. count_list a CHR '':'' = 1 \<and> serviceOf a = s) actions,
           Resource = getResourceARNForService s\<rparr>"
        and "filter (\<lambda>a. count_list a CHR '':'' = 1 \<and> serviceOf a = s) actions \<noteq> []"
        using statement_form[OF z] by blast
      then show ?thesis by simp
    qed
    show "firstActionLess x y = (?f x < ?f y)"
      using ne[OF x] ne[OF y] by (simp add: firstActionLess_def)
  qed
  have "sortSlice (\<lambda>a b. ?f a < ?f b) (?xs keys1) = sortSlice (\<lambda>a b. ?f a < ?f b) (?xs keys2)"
    using perm first_action_inj by (rule sortSlice_unique)
  then show ?thesis by (simp add: leastPrivilegeStatements_def agree)
qed

section \<open>The walk: backend precedence and errors\<close>

subsection \<open>The example directory, evaluated\<close>

lemma contents_distinct:
  "mainTf \<noteq> otherTf" "mainTf \<noteq> twoTf" "otherTf \<noteq> twoTf" "brokenTf \<noteq> mainTf"
  "brokenTf \<noteq> otherTf" "brokenTf \<noteq> twoTf"
  by (simp_all add: mainTf_def otherTf_def twoTf_def brokenTf_def nl_def)

lemma parse_examples:
  "parseTerraformFile exampleEnv ''main.tf''
     = Inr \<lparr>Resources = [],
            Backend = Some \<lparr>BackendType = ''s3'', Config = [''bucket'' \<mapsto> ''tf-state'']\<rparr>,
            DataSources = []\<rparr>"
  "parseTerraformFile exampleEnv ''other.tf''
     = Inr \<lparr>Resources = [],
            Backend = Some \<lparr>BackendType = ''gcs'', Config = [''bucket'' \<mapsto> ''other'']\<rparr>,
            DataSources = []\<rparr>"
  "parseTerraformFile exampleEnv ''two.tf''
     = Inr \<lparr>Resources = [],
            Backend = Some \<lparr>BackendType = ''gcs'', Config = [''bucket'' \<mapsto> ''other'']\<rparr>,
            DataSources = []\<rparr>"
  "parseTerraformFile exampleEnv ''secret.tf'' = Inl (IOError ''permission denied'')"
  by (simp_all add: parseTerraformFile_def exampleEnv_def contents_distinct
      contents_distinct[THEN not_sym] s3Block_def
      gcsBlock_def addBlock_def extractBackendFromBlock_def emptyResult_def)

lemma state_examples:
  "extractBackendFromState exampleEnv ''terraform.tfstate''
     = Inr (Some \<lparr>BackendType = ''s3'', Config = Map.empty\<rparr>)"
  "extractBackendFromState exampleEnv ''a.tfstate''
     = Inr (Some \<lparr>BackendType = ''s3'', Config = Map.empty\<rparr>)"
  "extractBackendFromState exampleEnv ''secret.tfstate'' = Inl (IOError ''permission denied'')"
  by (simp_all add: extractBackendFromState_def exampleEnv_def stateJson_def)

lemma suffix_examples:
  "HasSuffix ''main.tf'' ''.tf''" "HasSuffix ''other.tf'' ''.tf''" "HasSuffix ''two.tf'' ''.tf''"
  "HasSuffix ''secret.tf'' ''.tf''" "HasSuffix ''broken.tf'' ''.tf''"
  "\<not> HasSuffix ''main.tf'' ''.tfstate''" "\<not> HasSuffix ''other.tf'' ''.tfstate''"
  "\<not> HasSuffix ''two.tf'' ''.tfstate''" "\<not> HasSuffix ''secret.tf'' ''.tfstate''"
  "\<not> HasSuffix ''broken.tf'' ''.tfstate''"
  "HasSuffix ''terraform.tfstate'' ''.tfstate''" "HasSuffix ''a.tfstate'' ''.tfstate''"
  "HasSuffix ''secret.tfstate'' ''.tfstate''"
  "\<not> HasSuffix ''terraform.tfstate'' ''.tf''" "\<not> HasSuffix ''a.tfstate'' ''.tf''"
  "\<not> HasSuffix ''secret.tfstate'' ''.tf''"
  by (simp_all add: HasSuffix_def)

lemma walk_config_first:
  "parseTerraformFiles exampleEnv (Some Map.empty) [fileEntry ''main.tf'', fileEntry ''terraform.tfstate'']
   = (Some \<lparr>Resources = [], Backend = Some \<lparr>BackendType = ''s3'', Config = Map.empty\<rparr>,
            DataSources = []\<rparr>, None, Some Map.empty)"
  by (simp add: parseTerraformFiles_def walkFn_def visitConfig_def visitState_def fileEntry_def
      parse_examples state_examples suffix_examples emptyResult_def)

lemma walk_state_first:
  "parseTerraformFiles exampleEnv (Some Map.empty) [fileEntry ''a.tfstate'', fileEntry ''main.tf'']
   = (Some \<lparr>Resources = [], Backend = Some \<lparr>BackendType = ''s3'', Config = Map.empty\<rparr>,
            DataSources = []\<rparr>, None, Some Map.empty)"
  by (simp add: parseTerraformFiles_def walkFn_def visitConfig_def visitState_def fileEntry_def
      parse_examples state_examples suffix_examples emptyResult_def)

lemma broken_example:
  "parseTerraformFile exampleEnv ''broken.tf''
   = Inr \<lparr>Resources = [\<lparr>Type = ''aws_s3_bucket'', Name = ''b'', Provider = ''aws'',
                          Attributes = Map.empty, ResourceType = ''aws_s3_bucket''\<rparr>],
          Backend = None, DataSources = []\<rparr>"
proof -
  have "ParseConfig exampleEnv brokenTf = None"
    by (simp add: exampleEnv_def contents_distinct)
  moreover have "ReadFile exampleEnv ''broken.tf'' = Inr brokenTf"
    by (simp add: exampleEnv_def)
  moreover have "extractWithSimpleParsing brokenTf ''broken.tf''
   = Inr \<lparr>Resources = [\<lparr>Type = ''aws_s3_bucket'', Name = ''b'', Provider = ''aws'',
                          Attributes = Map.empty, ResourceType = ''aws_s3_bucket''\<rparr>],
          Backend = None, DataSources = []\<rparr>"
    by (simp add: brokenTf_def extractWithSimpleParsing_def scanLine_def scanDeclaration_def
        TrimSpace_def Trim_def Fields_def isSpace_def emptyResult_def nl_def Let_def)
  ultimately show ?thesis by (simp add: parseTerraformFile_def)
qed

subsection \<open>The backend found in a state file\<close>

lemma walkFn_None:
  assumes "walkFn e entry result = (result', None)"
  obtains r1 where "walkErr entry = None" and "visitConfig e entry result = Inr r1"
    and "result' = visitState e entry r1"
  using assms by (auto simp: walkFn_def split: option.splits sum.splits)

lemma visitConfig_keeps_Backend:
  assumes "visitConfig e entry result = Inr r1" and "Backend result = Some b"
  shows "Backend r1 = Some b"
  using assms by (auto simp: visitConfig_def split: if_splits sum.splits)

lemma extractBackendFromState_cases:
  "extractBackendFromState e path = Inr (Some b) \<Longrightarrow> b = \<lparr>BackendType = ''s3'', Config = Map.empty\<rparr>"
  by (auto simp: extractBackendFromState_def split: sum.splits if_splits)

lemma visitState_keeps_state_Backend:
  assumes "Backend r = Some \<lparr>BackendType = ''s3'', Config = Map.empty\<rparr>"
  shows "Backend (visitState e entry r) = Some \<lparr>BackendType = ''s3'', Config = Map.empty\<rparr>"
proof (cases "extractBackendFromState e (entryPath entry)")
  case (Inl err)
  then show ?thesis using assms by (simp add: visitState_def)
next
  case (Inr found)
  show ?thesis
  proof (cases found)
    case None
    then show ?thesis using assms Inr by (simp add: visitState_def)
  next
    case (Some b)
    then have "b = \<lparr>BackendType = ''s3'', Config = Map.empty\<rparr>"
      using Inr extractBackendFromState_cases by blast
    then show ?thesis using assms Inr Some by (simp add: visitState_def)
  qed
qed

lemma visitState_hit:
  assumes "infoName entry = ''terraform.tfstate'' \<or> HasSuffix (infoName entry) ''.tfstate''"
    and "ReadFile e (entryPath entry) = Inr content"
    and "Contains content ''s3'' \<or> Contains content ''backend''"
  shows "Backend (visitState e entry r) = Some \<lparr>BackendType = ''s3'', Config = Map.empty\<rparr>"
proof -
  have "extractBackendFromState e (entryPath entry)
        = Inr (Some \<lparr>BackendType = ''s3'', Config = Map.empty\<rparr>)"
    using assms(2,3) by (simp add: extractBackendFromState_def)
  then show ?thesis using assms(1) by (simp add: visitState_def)
qed

lemma Walk_state_backend:
  assumes "Walk e entries result = (result', None)"
    and "Backend result = Some \<lparr>BackendType = ''s3'', Config = Map.empty\<rparr>
         \<or> (\<exists>entry\<in>set entries.
               (infoName entry = ''terraform.tfstate'' \<or> HasSuffix (infoName entry) ''.tfstate'')
               \<and> (\<exists>content. ReadFile e (entryPath entry) = Inr content
                     \<and> (Contains content ''s3'' \<or> Contains content ''backend'')))"
  shows "Backend result' = Some \<lparr>BackendType = ''s3'', Config = Map.empty\<rparr>"
  using assms
proof (induction entries arbitrary: result)
  case Nil
  then show ?case by simp
next
  case (Cons entry rest)
  obtain r2 err where step: "walkFn e entry result = (r2, err)"
    by (cases "walkFn e entry result")
  have err: "err = None" and rest: "Walk e rest r2 = (result', None)"
    using Cons.prems(1) step by (auto split: option.splits)
  obtain r1 where r1: "visitConfig e entry result = Inr r1" and r2: "r2 = visitState e entry r1"
    using step err walkFn_None by blast
  let ?B = "\<lparr>BackendType = ''s3'', Config = Map.empty\<rparr>"
  let ?hit = "\<lambda>entry. (infoName entry = ''terraform.tfstate'' \<or> HasSuffix (infoName entry) ''.tfstate'')
               \<and> (\<exists>content. ReadFile e (entryPath entry) = Inr content
                     \<and> (Contains content ''s3'' \<or> Contains content ''backend''))"
  consider (set) "Backend result = Some ?B" | (here) "?hit entry" | (later) "\<exists>x\<in>set rest. ?hit x"
    using Cons.prems(2) by auto
  then have "Backend r2 = Some ?B \<or> (\<exists>x\<in>set rest. ?hit x)"
  proof cases
    case set
    then have "Backend r1 = Some ?B" using r1 visitConfig_keeps_Backend by blast
    then show ?thesis using r2 visitState_keeps_state_Backend by blast
  next
    case here
    then show ?thesis using r2 visitState_hit by blast
  next
    case later
    then show ?thesis by blast
  qed
  then show ?case using Cons.IH[OF rest] by blast
qed

text \<open>
  Claim C3. When the run ends without error and the traversal visits a state file (named
  \<open>terraform.tfstate\<close> or ending in \<open>.tfstate\<close>) that can be read and whose content
  contains \<open>s3\<close> or \<open>backend\<close>, the backend of the result is the descriptor of the state
  scan, of kind \<open>s3\<close> with no settings. The traversal is any list of visits, so this holds
  for every order of the files, and whatever backend blocks the configuration files have.
\<close>

theorem state_file_backend_wins:
  assumes run: "parseTerraformFiles e permissionsDB entries = (Some result, None, db')"
    and entry: "entry \<in> set entries"
    and name: "infoName entry = ''terraform.tfstate'' \<or> HasSuffix (infoName entry) ''.tfstate''"
    and content: "ReadFile e (entryPath entry) = Inr content"
    and found: "Contains content ''s3'' \<or> Contains content ''backend''"
  shows "Backend result = Some \<lparr>BackendType = ''s3'', Config = Map.empty\<rparr>"
proof -
  have "Walk e entries emptyResult = (result, None)"
    using run by (auto simp: parseTerraformFiles_def split: sum.splits prod.splits)
  then show ?thesis
    using Walk_state_backend[of e entries emptyResult result] entry name content found by blast
qed

text \<open>
  The witness: \<open>main.tf\<close> has a block \<open>backend "s3"\<close> with a bucket setting. Visited
  before the state file or after it, the run ends with the descriptor without settings.
\<close>

theorem state_file_backend_wins_witness:
  "parseTerraformFile exampleEnv ''main.tf''
     = Inr \<lparr>Resources = [],
            Backend = Some \<lparr>BackendType = ''s3'', Config = [''bucket'' \<mapsto> ''tf-state'']\<rparr>,
            DataSources = []\<rparr> \<and>
   parseTerraformFiles exampleEnv (Some Map.empty)
     [fileEntry ''main.tf'', fileEntry ''terraform.tfstate'']
     = (Some \<lparr>Resources = [], Backend = Some \<lparr>BackendType = ''s3'', Config = Map.empty\<rparr>,
              DataSources = []\<rparr>, None, Some Map.empty) \<and>
   parseTerraformFiles exampleEnv (Some Map.empty)
     [fileEntry ''a.tfstate'', fileEntry ''main.tf'']
     = (Some \<lparr>Resources = [], Backend = Some \<lparr>BackendType = ''s3'', Config = Map.empty\<rparr>,
              DataSources = []\<rparr>, None, Some Map.empty)"
proof -
  have name: "infoName (fileEntry ''terraform.tfstate'') = ''terraform.tfstate''
              \<or> HasSuffix (infoName (fileEntry ''terraform.tfstate'')) ''.tfstate''"
    by (simp add: fileEntry_def)
  have content: "ReadFile exampleEnv (entryPath (fileEntry ''terraform.tfstate'')) = Inr stateJson"
    by (simp add: fileEntry_def exampleEnv_def)
  have found: "Contains stateJson ''s3'' \<or> Contains stateJson ''backend''"
    by (simp add: stateJson_def)
  have "fileEntry ''terraform.tfstate''
        \<in> set [fileEntry ''main.tf'', fileEntry ''terraform.tfstate'']"
    by simp
  from state_file_backend_wins[OF walk_config_first this name content found]
  show ?thesis
    using parse_examples(1) walk_config_first walk_state_first by simp
qed

subsection \<open>Backends found in blocks\<close>

lemma Walk_append:
  "Walk e pre result = (r0, None) \<Longrightarrow> Walk e (pre @ rest) result = Walk e rest r0"
  by (induction pre arbitrary: result) (auto split: prod.splits option.splits)

lemma visitState_other_file:
  "\<not> (infoName entry = ''terraform.tfstate'' \<or> HasSuffix (infoName entry) ''.tfstate'')
   \<Longrightarrow> visitState e entry r = r"
  by (simp add: visitState_def)

lemma walkFn_keeps_Backend:
  assumes "walkFn e entry result = (result', err)" and "Backend result = Some b"
    and "\<not> (infoName entry = ''terraform.tfstate'' \<or> HasSuffix (infoName entry) ''.tfstate'')"
  shows "Backend result' = Some b"
proof (cases err)
  case None
  then obtain r1 where "visitConfig e entry result = Inr r1" "result' = visitState e entry r1"
    using assms(1) walkFn_None by blast
  then have "Backend r1 = Some b" and "result' = r1"
    using assms(2,3) visitConfig_keeps_Backend[of e entry result r1 b]
      visitState_other_file[of entry e r1] by simp_all
  then show ?thesis by simp
next
  case (Some x)
  then have "result' = result"
    using assms(1) by (auto simp: walkFn_def split: option.splits sum.splits)
  then show ?thesis using assms(2) by simp
qed

text \<open>
  Claim C4 as stated, including two blocks in the same file, fails on the code. The loop
  over the blocks of one file assigns \<^verbatim>\<open>result.Backend\<close> at every \<open>terraform\<close> block that
  has a backend, with no test of the value already there: in \<open>two.tf\<close> the first block
  sets the descriptor \<open>s3\<close> and the second replaces it by \<open>gcs\<close>, which is the backend
  of the run.
\<close>

theorem later_block_replaces_backend_counterexample:
  "ParseConfig exampleEnv twoTf = Some [s3Block, gcsBlock] \<and>
   addBlock emptyResult s3Block
     = \<lparr>Resources = [],
        Backend = Some \<lparr>BackendType = ''s3'', Config = [''bucket'' \<mapsto> ''tf-state'']\<rparr>,
        DataSources = []\<rparr> \<and>
   parseTerraformFiles exampleEnv (Some Map.empty) [fileEntry ''two.tf'']
     = (Some \<lparr>Resources = [],
              Backend = Some \<lparr>BackendType = ''gcs'', Config = [''bucket'' \<mapsto> ''other'']\<rparr>,
              DataSources = []\<rparr>, None, Some Map.empty)"
proof -
  have "ParseConfig exampleEnv twoTf = Some [s3Block, gcsBlock]"
    by (simp add: exampleEnv_def contents_distinct contents_distinct[THEN not_sym])
  moreover have "addBlock emptyResult s3Block
     = \<lparr>Resources = [],
        Backend = Some \<lparr>BackendType = ''s3'', Config = [''bucket'' \<mapsto> ''tf-state'']\<rparr>,
        DataSources = []\<rparr>"
    by (simp add: addBlock_def s3Block_def extractBackendFromBlock_def emptyResult_def)
  moreover have "parseTerraformFiles exampleEnv (Some Map.empty) [fileEntry ''two.tf'']
     = (Some \<lparr>Resources = [],
              Backend = Some \<lparr>BackendType = ''gcs'', Config = [''bucket'' \<mapsto> ''other'']\<rparr>,
              DataSources = []\<rparr>, None, Some Map.empty)"
    by (simp add: parseTerraformFiles_def walkFn_def visitConfig_def visitState_def fileEntry_def
        parse_examples suffix_examples emptyResult_def)
  ultimately show ?thesis by blast
qed

text \<open>
  Claim C4, amended: across files the first descriptor wins. Once the backend of the run
  is set, visiting further files that are not state files never changes it, whatever
  blocks they have and whether or not the walk then ends in an error.
\<close>

theorem later_file_keeps_backend:
  assumes "Walk e entries result = (result', err)"
    and "Backend result = Some b"
    and "\<forall>entry\<in>set entries.
           \<not> (infoName entry = ''terraform.tfstate'' \<or> HasSuffix (infoName entry) ''.tfstate'')"
  shows "Backend result' = Some b"
  using assms
proof (induction entries arbitrary: result)
  case Nil
  then show ?case by simp
next
  case (Cons entry rest)
  obtain r2 e2 where step: "walkFn e entry result = (r2, e2)"
    by (cases "walkFn e entry result")
  have r2: "Backend r2 = Some b"
    using walkFn_keeps_Backend[OF step Cons.prems(2)] Cons.prems(3) by simp
  show ?case
  proof (cases e2)
    case None
    then have "Walk e rest r2 = (result', err)" using Cons.prems(1) step by simp
    then show ?thesis using Cons.IH[OF _ r2] Cons.prems(3) by simp
  next
    case (Some x)
    then have "result' = r2" using Cons.prems(1) step by simp
    then show ?thesis using r2 by simp
  qed
qed

text \<open>The witness: with the descriptor of \<open>main.tf\<close> set, \<open>other.tf\<close> does not replace it.\<close>

theorem later_file_keeps_backend_witness:
  "parseTerraformFile exampleEnv ''other.tf''
     = Inr \<lparr>Resources = [],
            Backend = Some \<lparr>BackendType = ''gcs'', Config = [''bucket'' \<mapsto> ''other'']\<rparr>,
            DataSources = []\<rparr> \<and>
   Walk exampleEnv [fileEntry ''other.tf'']
     \<lparr>Resources = [],
      Backend = Some \<lparr>BackendType = ''s3'', Config = [''bucket'' \<mapsto> ''tf-state'']\<rparr>,
      DataSources = []\<rparr>
     = (\<lparr>Resources = [],
         Backend = Some \<lparr>BackendType = ''s3'', Config = [''bucket'' \<mapsto> ''tf-state'']\<rparr>,
         DataSources = []\<rparr>, None)"
proof -
  let ?r = "\<lparr>Resources = [],
      Backend = Some \<lparr>BackendType = ''s3'', Config = [''bucket'' \<mapsto> ''tf-state'']\<rparr>,
      DataSources = []\<rparr>"
  have run: "Walk exampleEnv [fileEntry ''other.tf''] ?r = (?r, None)"
    by (simp add: walkFn_def visitConfig_def visitState_def fileEntry_def
        parse_examples suffix_examples)
  have set: "Backend ?r = Some \<lparr>BackendType = ''s3'', Config = [''bucket'' \<mapsto> ''tf-state'']\<rparr>"
    by simp
  have names: "\<forall>entry\<in>set [fileEntry ''other.tf''].
           \<not> (infoName entry = ''terraform.tfstate'' \<or> HasSuffix (infoName entry) ''.tfstate'')"
    by (simp add: fileEntry_def suffix_examples)
  from later_file_keeps_backend[OF run set names] show ?thesis
    using run parse_examples(2) by simp
qed

subsection \<open>Read errors and parse failures\<close>

lemma walkFn_read_error:
  assumes "walkErr entry = None" and "HasSuffix (infoName entry) ''.tf''"
    and "ReadFile e (entryPath entry) = Inl err"
  shows "walkFn e entry result
         = (result, Some (Wrapped (''error parsing '' @ entryPath entry) err))"
  using assms by (simp add: walkFn_def visitConfig_def parseTerraformFile_def)

lemma fallback_total:
  "\<exists>fileResult. extractWithSimpleParsing content filePath = Inr fileResult"
  by (simp add: extractWithSimpleParsing_def)

lemma walkFn_parse_failure:
  assumes "walkErr entry = None" and "ReadFile e (entryPath entry) = Inr content"
    and "ParseConfig e content = None"
  shows "snd (walkFn e entry result) = None"
  using assms
  by (simp add: walkFn_def visitConfig_def parseTerraformFile_def extractWithSimpleParsing_def)

lemma walkFn_not_config:
  assumes "walkErr entry = None" and "\<not> HasSuffix (infoName entry) ''.tf''"
  shows "snd (walkFn e entry result) = None"
  using assms by (simp add: walkFn_def visitConfig_def)

text \<open>
  Claim C8 as stated, for every file visited, fails on the code: the callback reads a
  state file through \<^verbatim>\<open>extractBackendFromState\<close> and drops its error
  (\<^verbatim>\<open>err == nil && backendInfo != nil\<close>). A state file that cannot be read does not abort
  the run.
\<close>

theorem state_read_error_ignored_counterexample:
  "walkErr (fileEntry ''secret.tfstate'') = None \<and>
   ReadFile exampleEnv (entryPath (fileEntry ''secret.tfstate'')) = Inl (IOError ''permission denied'') \<and>
   parseTerraformFiles exampleEnv (Some Map.empty) [fileEntry ''secret.tfstate'']
     = (Some \<lparr>Resources = [], Backend = None, DataSources = []\<rparr>, None, Some Map.empty)"
proof -
  have "ReadFile exampleEnv (entryPath (fileEntry ''secret.tfstate'')) = Inl (IOError ''permission denied'')"
    by (simp add: fileEntry_def exampleEnv_def)
  moreover have "parseTerraformFiles exampleEnv (Some Map.empty) [fileEntry ''secret.tfstate'']
     = (Some \<lparr>Resources = [], Backend = None, DataSources = []\<rparr>, None, Some Map.empty)"
    by (simp add: parseTerraformFiles_def walkFn_def visitConfig_def visitState_def fileEntry_def
        state_examples suffix_examples emptyResult_def)
  ultimately show ?thesis by (simp add: fileEntry_def)
qed

text \<open>
  Claim C8, amended, for a visit to which the walk hands no error of its own. If the
  file is a configuration file (its name ends in \<open>.tf\<close>) and cannot be read, the run
  stops there: it returns what the visits before had collected and the read error
  wrapped with the path. If the file can be read and the HCL parser rejects it, the file
  is parsed by the fallback scanner, which always returns a result, and the visit returns
  no error. A visit to a file that is not a configuration file, a state file that cannot
  be read included, returns no error.
\<close>

theorem read_error_aborts_parse_failure_falls_back:
  assumes "walkErr entry = None"
  shows "(HasSuffix (infoName entry) ''.tf'' \<and> ReadFile e (entryPath entry) = Inl err \<longrightarrow>
            (\<forall>pre post r0 db.
               parseTerraformFiles e permissionsDB pre = (Some r0, None, db) \<longrightarrow>
               parseTerraformFiles e permissionsDB (pre @ entry # post)
                 = (Some r0, Some (Wrapped (''error parsing '' @ entryPath entry) err), db))) \<and>
         (ReadFile e (entryPath entry) = Inr content \<and> ParseConfig e content = None \<longrightarrow>
            parseTerraformFile e (entryPath entry)
              = extractWithSimpleParsing content (entryPath entry) \<and>
            (\<exists>fileResult. extractWithSimpleParsing content (entryPath entry) = Inr fileResult) \<and>
            snd (walkFn e entry result) = None) \<and>
         (\<not> HasSuffix (infoName entry) ''.tf'' \<longrightarrow> snd (walkFn e entry result) = None)"
proof (intro conjI impI allI)
  fix pre post r0 db
  assume rd: "HasSuffix (infoName entry) ''.tf'' \<and> ReadFile e (entryPath entry) = Inl err"
    and pre: "parseTerraformFiles e permissionsDB pre = (Some r0, None, db)"
  obtain db0 where load: "(case permissionsDB of None \<Rightarrow> loadPermissionsDB e
                             | Some _ \<Rightarrow> Inr permissionsDB) = Inr db0"
    using pre by (auto simp: parseTerraformFiles_def split: sum.splits)
  have w: "Walk e pre emptyResult = (r0, None)" and db: "db = db0"
    using pre load by (auto simp: parseTerraformFiles_def split: prod.splits)
  have "Walk e (pre @ entry # post) emptyResult
        = (r0, Some (Wrapped (''error parsing '' @ entryPath entry) err))"
    using Walk_append[OF w, of "entry # post"] walkFn_read_error[OF assms, of e err r0] rd
    by simp
  then show "parseTerraformFiles e permissionsDB (pre @ entry # post)
             = (Some r0, Some (Wrapped (''error parsing '' @ entryPath entry) err), db)"
    using load db by (simp add: parseTerraformFiles_def)
next
  assume "ReadFile e (entryPath entry) = Inr content \<and> ParseConfig e content = None"
  then show "parseTerraformFile e (entryPath entry)
             = extractWithSimpleParsing content (entryPath entry)"
    by (simp add: parseTerraformFile_def)
next
  show "\<exists>fileResult. extractWithSimpleParsing content (entryPath entry) = Inr fileResult"
    by (rule fallback_total)
next
  assume "ReadFile e (entryPath entry) = Inr content \<and> ParseConfig e content = None"
  then show "snd (walkFn e entry result) = None"
    using walkFn_parse_failure[OF assms] by blast
next
  assume "\<not> HasSuffix (infoName entry) ''.tf''"
  then show "snd (walkFn e entry result) = None"
    using walkFn_not_config[OF assms] by blast
qed

text \<open>
  The witness: \<open>broken.tf\<close> is rejected by the parser and scanned, \<open>secret.tf\<close> cannot be
  read and ends the run before \<open>main.tf\<close> is visited, and a visit to the unreadable
  state file returns no error.
\<close>

theorem read_error_aborts_parse_failure_falls_back_witness:
  "parseTerraformFiles exampleEnv (Some Map.empty)
     [fileEntry ''broken.tf'', fileEntry ''secret.tf'', fileEntry ''main.tf'']
   = (Some \<lparr>Resources = [\<lparr>Type = ''aws_s3_bucket'', Name = ''b'', Provider = ''aws'',
                            Attributes = Map.empty, ResourceType = ''aws_s3_bucket''\<rparr>],
            Backend = None, DataSources = []\<rparr>,
      Some (Wrapped ''error parsing secret.tf'' (IOError ''permission denied'')),
      Some Map.empty) \<and>
   snd (walkFn exampleEnv (fileEntry ''broken.tf'') emptyResult) = None \<and>
   snd (walkFn exampleEnv (fileEntry ''secret.tfstate'') emptyResult) = None"
proof -
  let ?r0 = "\<lparr>Resources = [\<lparr>Type = ''aws_s3_bucket'', Name = ''b'', Provider = ''aws'',
                            Attributes = Map.empty, ResourceType = ''aws_s3_bucket''\<rparr>],
            Backend = None, DataSources = []\<rparr>"
  have pre: "parseTerraformFiles exampleEnv (Some Map.empty) [fileEntry ''broken.tf'']
             = (Some ?r0, None, Some Map.empty)"
    by (simp add: parseTerraformFiles_def walkFn_def visitConfig_def visitState_def fileEntry_def
        broken_example suffix_examples emptyResult_def)
  have ok: "walkErr (fileEntry name) = None" for name
    by (simp add: fileEntry_def)
  have secret: "HasSuffix (infoName (fileEntry ''secret.tf'')) ''.tf'' \<and>
                ReadFile exampleEnv (entryPath (fileEntry ''secret.tf''))
                  = Inl (IOError ''permission denied'')"
    by (simp add: fileEntry_def exampleEnv_def suffix_examples)
  have broken: "ReadFile exampleEnv (entryPath (fileEntry ''broken.tf'')) = Inr brokenTf \<and>
                ParseConfig exampleEnv brokenTf = None"
    by (simp add: fileEntry_def exampleEnv_def contents_distinct)
  have state: "\<not> HasSuffix (infoName (fileEntry ''secret.tfstate'')) ''.tf''"
    by (simp add: fileEntry_def suffix_examples)
  have 1: "parseTerraformFiles exampleEnv (Some Map.empty)
             ([fileEntry ''broken.tf''] @ fileEntry ''secret.tf'' # [fileEntry ''main.tf''])
           = (Some ?r0, Some (Wrapped (''error parsing '' @ entryPath (fileEntry ''secret.tf''))
                                (IOError ''permission denied'')), Some Map.empty)"
    using read_error_aborts_parse_failure_falls_back[OF ok, of "''secret.tf''" exampleEnv "IOError ''permission denied''" "Some Map.empty"]
      secret pre by blast
  have 2: "snd (walkFn exampleEnv (fileEntry ''broken.tf'') emptyResult) = None"
    using read_error_aborts_parse_failure_falls_back[OF ok, of "''broken.tf''" exampleEnv _ _ brokenTf emptyResult] broken by blast
  have 3: "snd (walkFn exampleEnv (fileEntry ''secret.tfstate'') emptyResult) = None"
    using read_error_aborts_parse_failure_falls_back[OF ok, of "''secret.tfstate''" exampleEnv _ _ _ emptyResult] state by blast
  show ?thesis
    using 1 2 3 by (simp add: fileEntry_def)
qed

end
